theory Spec2Isabelle
  imports Complex_Main "HOL-Library.Sublist" "HOL-Library.AList"
begin

section \<open>JavaScript strings and the regular expressions of the constructor\<close>

text \<open>
  Strings are lists of characters. The patterns of the source are ASCII literals; a
  regular expression with the \<^verbatim>\<open>i\<close> flag (and no \<^verbatim>\<open>u\<close> flag) compares two
  characters after mapping both to upper case, and a character outside ASCII is never
  mapped to an ASCII letter, so only the 26 letters are folded.
\<close>

definition toUpperCase :: "char \<Rightarrow> char" where
  "toUpperCase c =
     (case map_of (zip ''abcdefghijklmnopqrstuvwxyz'' ''ABCDEFGHIJKLMNOPQRSTUVWXYZ'') c of
        None \<Rightarrow> c
      | Some u \<Rightarrow> u)"

text \<open>
  \<open>char_match ic p c\<close>: the pattern character \<open>p\<close> matches the input character
  \<open>c\<close> (\<open>ic\<close> is the ignore-case flag). \<open>starts_with ic t s\<close>: the literal
  \<open>t\<close> matches at the start of \<open>s\<close>.
\<close>

definition char_match :: "bool \<Rightarrow> char \<Rightarrow> char \<Rightarrow> bool" where
  "char_match ic p c = (if ic then toUpperCase p = toUpperCase c else p = c)"

fun starts_with :: "bool \<Rightarrow> string \<Rightarrow> string \<Rightarrow> bool" where
  "starts_with ic [] s = True"
| "starts_with ic (p # ps) [] = False"
| "starts_with ic (p # ps) (c # cs) =
     (char_match ic p c \<and> starts_with ic ps cs)"

text \<open>
  \<open>regex_test ic ts s\<close> is \<^verbatim>\<open>/t1|t2|...|tn/.test(s)\<close> (with the \<^verbatim>\<open>i\<close> flag when
  \<open>ic\<close>): some alternative matches at some position of \<open>s\<close>.
\<close>

fun regex_test :: "bool \<Rightarrow> string list \<Rightarrow> string \<Rightarrow> bool" where
  "regex_test ic ts [] = list_ex (\<lambda>t. starts_with ic t []) ts"
| "regex_test ic ts (c # cs) =
     (list_ex (\<lambda>t. starts_with ic t (c # cs)) ts \<or> regex_test ic ts cs)"

text \<open>\<^verbatim>\<open>String.prototype.includes\<close>: \<open>d\<close> occurs in \<open>s\<close> as a contiguous run.\<close>

definition includes_str :: "string \<Rightarrow> string \<Rightarrow> bool" where
  "includes_str s d = regex_test False [d] s"

text \<open>
  The dot of a regular expression matches every character but a line terminator: line
  feed and carriage return here (the separators U+2028 and U+2029 are no single
  characters of this model of strings).
\<close>

definition line_terminator :: "char \<Rightarrow> bool" where
  "line_terminator c = (c = CHR 0x0A \<or> c = CHR 0x0D)"

text \<open>
  \<^verbatim>\<open>/^((?!chrome|android).)*safari/i.test(s)\<close>: anchored at the start, the starred group
  consumes one character at a time, each at a position where neither word starts, until
  \<^verbatim>\<open>safari\<close> starts.
\<close>

fun safari_regex_test :: "string \<Rightarrow> bool" where
  "safari_regex_test [] = False"
| "safari_regex_test (c # cs) =
     (starts_with True ''safari'' (c # cs) \<or>
      (\<not> starts_with True ''chrome'' (c # cs) \<and> \<not> starts_with True ''android'' (c # cs) \<and>
       \<not> line_terminator c \<and> safari_regex_test cs))"

section \<open>MobileOptimizer: the device-class quality presets\<close>

record MobileOptimizer =
  isMobile :: bool
  isSafari :: bool
  isIOS :: bool
  devicePixelRatio :: rat
  memoryLimit :: nat
  currentMemoryUsage :: rat

text \<open>
  \<^verbatim>\<open>estimateMemoryLimit\<close> reads \<^verbatim>\<open>this.isIOS\<close> and \<^verbatim>\<open>this.devicePixelRatio\<close>, the
  two fields the constructor has set before the call.
\<close>

definition estimateMemoryLimit :: "bool \<Rightarrow> rat \<Rightarrow> nat" where
  "estimateMemoryLimit ios dpr =
     (if ios then
        (if dpr \<ge> 3 then 512 else if dpr \<ge> 2 then 256 else 128)
      else 1024)"

text \<open>
  The constructor reads \<^verbatim>\<open>navigator.userAgent\<close> and \<^verbatim>\<open>window.devicePixelRatio\<close>
  (\<open>None\<close> when the property is undefined or not a number); \<^verbatim>\<open>x || 1\<close> is 1 when
  \<open>x\<close> is undefined or zero.
\<close>

definition new_MobileOptimizer :: "string \<Rightarrow> rat option \<Rightarrow> MobileOptimizer" where
  "new_MobileOptimizer ua wdpr =
     (let mobile = regex_test True [''iPhone'', ''iPad'', ''iPod'', ''Android''] ua;
          safari = safari_regex_test ua;
          ios = regex_test False [''iPad'', ''iPhone'', ''iPod''] ua;
          dpr = (case wdpr of None \<Rightarrow> 1 | Some d \<Rightarrow> if d = 0 then 1 else d)
      in \<lparr> isMobile = mobile, isSafari = safari, isIOS = ios, devicePixelRatio = dpr,
           memoryLimit = estimateMemoryLimit ios dpr, currentMemoryUsage = 0 \<rparr>)"

record renderer_options =
  antialias :: bool
  alpha :: bool
  powerPreference :: string
  precision :: "string option"
  logarithmicDepthBuffer :: "bool option"
  stencil :: "bool option"
  depth :: "bool option"

definition getOptimizedRendererOptions :: "MobileOptimizer \<Rightarrow> renderer_options" where
  "getOptimizedRendererOptions m =
     (let baseOptions = \<lparr> antialias = \<not> isMobile m, alpha = False,
                           powerPreference = ''high-performance'', precision = None,
                           logarithmicDepthBuffer = None, stencil = None, depth = None \<rparr>
      in if isMobile m then
           baseOptions \<lparr> precision := Some ''mediump'', logarithmicDepthBuffer := Some False,
                         stencil := Some False, depth := Some True \<rparr>
         else baseOptions)"

record camera_settings =
  fov :: nat
  near :: rat
  far :: nat
  position :: "int \<times> int \<times> int"

definition getOptimizedCameraSettings :: "MobileOptimizer \<Rightarrow> camera_settings" where
  "getOptimizedCameraSettings m =
     (if isMobile m then \<lparr> fov = 45, near = 1 / 10, far = 1000, position = (0, 0, 22) \<rparr>
      else \<lparr> fov = 60, near = 1, far = 2000, position = (0, 0, 28) \<rparr>)"

definition getOptimizedStarCount :: "MobileOptimizer \<Rightarrow> nat" where
  "getOptimizedStarCount m = (if isMobile m then (if isIOS m then 150 else 200) else 400)"

record light =
  color :: nat
  intensity :: rat

record lighting =
  sunLight :: light
  ambientLight :: light
  rimLight :: light
  textLight :: light
  textLightDistance :: nat

definition getOptimizedLighting :: "MobileOptimizer \<Rightarrow> lighting" where
  "getOptimizedLighting m =
     (if isMobile m then
        \<lparr> sunLight = \<lparr> color = 0xffffff, intensity = 4 \<rparr>,
          ambientLight = \<lparr> color = 0xffffff, intensity = 3 / 10 \<rparr>,
          rimLight = \<lparr> color = 0xd4e5ff, intensity = 3 \<rparr>,
          textLight = \<lparr> color = 0xfff8e7, intensity = 3 \<rparr>,
          textLightDistance = 25 \<rparr>
      else
        \<lparr> sunLight = \<lparr> color = 0xffffff, intensity = 8 \<rparr>,
          ambientLight = \<lparr> color = 0xffffff, intensity = 4 / 10 \<rparr>,
          rimLight = \<lparr> color = 0xd4e5ff, intensity = 6 \<rparr>,
          textLight = \<lparr> color = 0xfff8e7, intensity = 5 \<rparr>,
          textLightDistance = 30 \<rparr>)"

record performance_settings =
  pixelRatio :: rat
  shadowMapSize :: nat
  maxLights :: nat
  enableShadows :: bool
  enablePostProcessing :: bool
  textureQuality :: string

definition getPerformanceSettings :: "MobileOptimizer \<Rightarrow> performance_settings" where
  "getPerformanceSettings m =
     \<lparr> pixelRatio = min (devicePixelRatio m) (if isMobile m then 1 else 2),
       shadowMapSize = (if isMobile m then 512 else 2048),
       maxLights = (if isMobile m then 3 else 8),
       enableShadows = (\<not> isMobile m),
       enablePostProcessing = False,
       textureQuality = (if isMobile m then ''medium'' else ''high'') \<rparr>"

section \<open>The document, its timers and the page\<close>

text \<open>
  An element has a tag name, an identity and its child elements; the identity stands
  for the JavaScript object reference (\<^verbatim>\<open>createElement\<close> returns a fresh one). The
  document is the list of the children of \<^verbatim>\<open>document.body\<close>, in order.
\<close>

datatype element = Element (tagName: string) (ident: nat) (childNodes: "element list")

text \<open>\<open>nodes\<close>: tag and identity of every element, in tree order.\<close>

fun nodes :: "element list \<Rightarrow> (string \<times> nat) list" where
  "nodes [] = []"
| "nodes (Element tg i ks # es) = (tg, i) # nodes ks @ nodes es"

definition ids_of_tag :: "string \<Rightarrow> element list \<Rightarrow> nat list" where
  "ids_of_tag tg es = map snd (filter (\<lambda>n. fst n = tg) (nodes es))"

text \<open>\<^verbatim>\<open>document.querySelector(tag)\<close>: the first element of that tag in tree order.\<close>

fun querySelector :: "string \<Rightarrow> element list \<Rightarrow> element option" where
  "querySelector tg [] = None"
| "querySelector tg (Element t i ks # es) =
     (if t = tg then Some (Element t i ks)
      else (case querySelector tg ks of
              Some e \<Rightarrow> Some e
            | None \<Rightarrow> querySelector tg es))"

text \<open>
  \<^verbatim>\<open>node.remove()\<close> and \<^verbatim>\<open>node.parentNode.removeChild(node)\<close>: the element of that
  identity leaves the document, with its subtree; nothing happens when it is not there.
\<close>

fun remove_node :: "nat \<Rightarrow> element list \<Rightarrow> element list" where
  "remove_node i [] = []"
| "remove_node i (Element t j ks # es) =
     (if j = i then remove_node i es
      else Element t j (remove_node i ks) # remove_node i es)"

text \<open>
  A timer registered by \<^verbatim>\<open>setTimeout\<close> holds its due time (in milliseconds) and what
  its callback does: the two callbacks of the source remove a banner, if it still has a
  parent, or reload the page.
\<close>

datatype timer_action = RemoveBanner nat | Reload

record page =
  body :: "element list"
  next_node :: nat
  clock :: nat
  timers :: "(nat \<times> timer_action) list"
  resize_listeners :: nat
  canvas_listeners :: "(nat \<times> string) list"
  raf_requests :: nat
  memory_monitoring :: bool
  reloads :: nat

text \<open>\<open>attached i p\<close>: the element of identity \<open>i\<close> is in the document.\<close>

definition attached :: "nat \<Rightarrow> page \<Rightarrow> bool" where
  "attached i p = (i \<in> snd ` set (nodes (body p)))"

text \<open>\<^verbatim>\<open>document.createElement(tag)\<close>: a fresh element, attached nowhere.\<close>

definition createElement :: "string \<Rightarrow> page \<Rightarrow> element \<times> page" where
  "createElement tg p = (Element tg (next_node p) [], p \<lparr> next_node := Suc (next_node p) \<rparr>)"

definition appendChild_body :: "element \<Rightarrow> page \<Rightarrow> page" where
  "appendChild_body e p = p \<lparr> body := body p @ [e] \<rparr>"

definition setTimeout :: "timer_action \<Rightarrow> nat \<Rightarrow> page \<Rightarrow> page" where
  "setTimeout a delay p = p \<lparr> timers := timers p @ [(clock p + delay, a)] \<rparr>"

text \<open>
  What the browser does when a timer fires. A reload discards the document with its
  pending timers and listeners; the document loaded next is not part of the model.
\<close>

fun fire :: "timer_action \<Rightarrow> page \<Rightarrow> page" where
  "fire (RemoveBanner i) p = p \<lparr> body := remove_node i (body p) \<rparr>"
| "fire Reload p =
     p \<lparr> body := [], timers := [], resize_listeners := 0, canvas_listeners := [],
         memory_monitoring := False, reloads := Suc (reloads p) \<rparr>"

text \<open>
  The timer that fires next: the least due time, the earliest registered among equals.
  The result is that timer and the others, in their order.
\<close>

fun next_timer ::
  "(nat \<times> timer_action) list \<Rightarrow> ((nat \<times> timer_action) \<times> (nat \<times> timer_action) list) option"
where
  "next_timer [] = None"
| "next_timer (x # xs) =
     (case next_timer xs of
        None \<Rightarrow> Some (x, [])
      | Some (y, ys) \<Rightarrow> if fst x \<le> fst y then Some (x, xs) else Some (y, x # ys))"

lemma next_timer_length: "next_timer ts = Some (y, ys) \<Longrightarrow> length ys < length ts"
  by (induction ts arbitrary: y ys) (auto split: option.splits if_splits)

lemma fire_timers_length: "length (timers (fire a p)) \<le> length (timers p)"
  by (cases a) simp_all

text \<open>
  \<open>run_until t p\<close>: the event loop up to time \<open>t\<close>: every timer due by then fires,
  in order, each at its due time.
\<close>

function run_until :: "nat \<Rightarrow> page \<Rightarrow> page" where
  "run_until t p =
     (case next_timer (timers p) of
        None \<Rightarrow> p \<lparr> clock := max (clock p) t \<rparr>
      | Some ((d, a), rest) \<Rightarrow>
          if d \<le> t then run_until t (fire a (p \<lparr> timers := rest, clock := max (clock p) d \<rparr>))
          else p \<lparr> clock := max (clock p) t \<rparr>)"
  by pat_completeness auto
termination
proof (relation "measure (\<lambda>(t, p). length (timers p))")
  show "wf (measure (\<lambda>(t, p). length (timers p)))" by simp
next
  fix t :: nat and p :: page and x2 x y d a
  assume h: "next_timer (timers p) = Some x2" "(x, y) = x2" "(d, a) = x" "d \<le> t"
  then have "next_timer (timers p) = Some ((d, a), y)" by simp
  then have "length y < length (timers p)" by (rule next_timer_length)
  moreover have "length (timers (fire a (p \<lparr> timers := y, clock := max (clock p) d \<rparr>))) \<le> length y"
    using fire_timers_length [of a "p \<lparr> timers := y, clock := max (clock p) d \<rparr>"] by simp
  ultimately show "((t, fire a (p \<lparr> timers := y, clock := max (clock p) d \<rparr>)), (t, p))
      \<in> measure (\<lambda>(t, p). length (timers p))" by simp
qed

declare run_until.simps [simp del]

section \<open>WebGLFallback: capability probing and the 2D fallback\<close>

text \<open>
  The errors the modelled code can throw: a \<^verbatim>\<open>ReferenceError\<close> for an undeclared
  global, a \<^verbatim>\<open>TypeError\<close> for a method call on \<^verbatim>\<open>null\<close>, and whatever
  \<^verbatim>\<open>getParameter\<close> throws when it throws.
\<close>

datatype js_error = ReferenceError | TypeError | QueryError

text \<open>
  What the browser answers to the probe. \<open>webgl\<close> and \<open>experimental_webgl\<close> are the
  results of the two \<^verbatim>\<open>getContext\<close> calls (\<open>None\<close> for \<^verbatim>\<open>null\<close>). Each
  \<^verbatim>\<open>getParameter\<close> call throws, returns \<^verbatim>\<open>null\<close> (as a lost context does) or
  returns its answer. \<open>debug_renderer_info\<close> holds the answers to the renderer and the
  vendor query when the extension \<^verbatim>\<open>WEBGL_debug_renderer_info\<close> is there.
\<close>

datatype 'a query = Throws | Null | Answer 'a

record webgl_context =
  debug_renderer_info :: "(string query \<times> string query) option"
  MAX_TEXTURE_SIZE :: "int query"
  MAX_VERTEX_ATTRIBS :: "int query"

record webgl_env =
  webgl :: "webgl_context option"
  experimental_webgl :: "webgl_context option"

text \<open>
  The fields of the object that the properties below read. The star list, the bitmap of the Earth
  image and the drawing done in each animation frame go to the canvas bitmap only and
  are left out, as is \<^verbatim>\<open>resizeCanvas\<close>, which writes the pixel size of the canvas.
\<close>

record WebGLFallback =
  fallbackMode :: bool
  canvas :: "nat option"
  ctx :: bool
  animationId :: "nat option"
  earthImage :: "nat option"
  orbitalObjects :: "string list"
  animationTime :: rat

type_synonym fallback_state = "WebGLFallback \<times> page"

definition initializeFallbackCanvas :: "fallback_state \<Rightarrow> fallback_state" where
  "initializeFallbackCanvas s =
     (let (w, p) = s;
          p1 = (case querySelector ''canvas'' (body p) of
                  Some existingCanvas \<Rightarrow> p \<lparr> body := remove_node (ident existingCanvas) (body p) \<rparr>
                | None \<Rightarrow> p);
          (c, p2) = createElement ''canvas'' p1;
          p3 = appendChild_body c p2
      in (w \<lparr> canvas := Some (ident c), ctx := True \<rparr>,
          p3 \<lparr> resize_listeners := Suc (resize_listeners p3) \<rparr>))"

definition createFallbackScene :: "fallback_state \<Rightarrow> fallback_state" where
  "createFallbackScene s =
     (let (w, p) = s;
          (earthCanvas, p1) = createElement ''canvas'' p
      in (w \<lparr> earthImage := Some (ident earthCanvas),
              orbitalObjects := [''Pizza'', ''Donut'', ''Crystal'', ''GameBoy'', ''K'', ''Tether''] \<rparr>,
          p1))"

text \<open>
  \<^verbatim>\<open>startFallbackAnimation\<close> runs the first frame at once and asks for the next one;
  \<^verbatim>\<open>requestAnimationFrame\<close> returns a handle that is not zero.
\<close>

definition startFallbackAnimation :: "fallback_state \<Rightarrow> fallback_state" where
  "startFallbackAnimation s =
     (let (w, p) = s
      in (w \<lparr> animationTime := animationTime w + 16 / 1000,
              animationId := Some (Suc (raf_requests p)) \<rparr>,
          p \<lparr> raf_requests := Suc (raf_requests p) \<rparr>))"

text \<open>
  The notification is a \<^verbatim>\<open>div\<close> whose \<^verbatim>\<open>innerHTML\<close> holds two \<^verbatim>\<open>div\<close>s; it is
  appended to the body and a timer of 5000 ms removes it.
\<close>

definition showFallbackNotification :: "fallback_state \<Rightarrow> fallback_state" where
  "showFallbackNotification s =
     (let (w, p) = s;
          (notification, p1) = createElement ''div'' p;
          (title, p2) = createElement ''div'' p1;
          (line, p3) = createElement ''div'' p2;
          p4 = appendChild_body (Element ''div'' (ident notification) [title, line]) p3
      in (w, setTimeout (RemoveBanner (ident notification)) 5000 p4))"

definition enableFallbackMode :: "fallback_state \<Rightarrow> fallback_state" where
  "enableFallbackMode s =
     (let (w, p) = s;
          s1 = initializeFallbackCanvas (w \<lparr> fallbackMode := True \<rparr>, p);
          s2 = createFallbackScene s1;
          s3 = startFallbackAnimation s2
      in showFallbackNotification s3)"

definition problematicDrivers :: "string list" where
  "problematicDrivers =
     [''Software Renderer'', ''Mesa'', ''Intel HD Graphics 3000'', ''Intel HD Graphics 4000'']"

text \<open>
  \<^verbatim>\<open>problematicDrivers.some(driver => renderer.includes(driver) || vendor.includes(driver))\<close>
  on what the two queries returned (\<open>None\<close> for \<^verbatim>\<open>null\<close>): the drivers are tried in
  order, the vendor is read only when the renderer does not match, and
  \<^verbatim>\<open>includes\<close> on \<^verbatim>\<open>null\<close> throws a \<^verbatim>\<open>TypeError\<close>.
\<close>

fun hasProblematicDriver :: "string option \<Rightarrow> string option \<Rightarrow> string list \<Rightarrow> js_error + bool" where
  "hasProblematicDriver renderer vendor [] = Inr False"
| "hasProblematicDriver renderer vendor (driver # ds) =
     (case renderer of
        None \<Rightarrow> Inl TypeError
      | Some r \<Rightarrow>
          if includes_str r driver then Inr True
          else (case vendor of
                  None \<Rightarrow> Inl TypeError
                | Some v \<Rightarrow>
                    if includes_str v driver then Inr True
                    else hasProblematicDriver renderer vendor ds))"

definition returned :: "'a query \<Rightarrow> 'a option" where
  "returned q = (case q of Throws \<Rightarrow> None | Null \<Rightarrow> None | Answer a \<Rightarrow> Some a)"

text \<open>
  The block under \<^verbatim>\<open>if (debugInfo)\<close>: the two queries, then the test. Nothing here is
  inside a \<^verbatim>\<open>try\<close>, so an error leaves \<^verbatim>\<open>detectWebGLSupport\<close>.
\<close>

definition driver_check :: "string query \<times> string query \<Rightarrow> js_error + bool" where
  "driver_check q =
     (if fst q = Throws then Inl QueryError
      else if snd q = Throws then Inl QueryError
      else hasProblematicDriver (returned (fst q)) (returned (snd q)) problematicDrivers)"

text \<open>A limit in a comparison: \<^verbatim>\<open>null\<close> counts as 0.\<close>

definition to_number :: "int query \<Rightarrow> int" where
  "to_number q = (case q of Throws \<Rightarrow> 0 | Null \<Rightarrow> 0 | Answer n \<Rightarrow> n)"

text \<open>
  \<^verbatim>\<open>detectWebGLSupport\<close>: the probe canvas is created and never attached. The result is
  what the call gives (\<open>Inl\<close> the error thrown, \<open>Inr\<close> the returned boolean) and the
  state. The two limits are queried inside the \<^verbatim>\<open>try\<close>: a throw there is caught.
\<close>

definition detectWebGLSupport ::
  "webgl_env \<Rightarrow> fallback_state \<Rightarrow> (js_error + bool) \<times> fallback_state"
where
  "detectWebGLSupport env s =
     (let (w, p) = s;
          (probe, p1) = createElement ''canvas'' p;
          gl = (case webgl env of Some g \<Rightarrow> Some g | None \<Rightarrow> experimental_webgl env)
      in case gl of
           None \<Rightarrow> (Inr False, enableFallbackMode (w, p1))
         | Some g \<Rightarrow>
             (case (case debug_renderer_info g of
                      None \<Rightarrow> Inr False
                    | Some q \<Rightarrow> driver_check q) of
                Inl e \<Rightarrow> (Inl e, (w, p1))
              | Inr problematic \<Rightarrow>
                  if problematic then (Inr False, enableFallbackMode (w, p1))
                  else if MAX_TEXTURE_SIZE g = Throws then (Inr False, enableFallbackMode (w, p1))
                  else if MAX_VERTEX_ATTRIBS g = Throws then (Inr False, enableFallbackMode (w, p1))
                  else if to_number (MAX_TEXTURE_SIZE g) < 1024 \<or> to_number (MAX_VERTEX_ATTRIBS g) < 8
                  then (Inr False, enableFallbackMode (w, p1))
                  else (Inr True, (w, p1))))"

text \<open>
  The constructor sets the fields and probes at once; it drops the returned boolean.
  When the probe throws, so does the constructor: there is no object, and the result is
  the error with the page as it is then.
\<close>

definition new_fields :: WebGLFallback where
  "new_fields = \<lparr> fallbackMode = False, canvas = None, ctx = False, animationId = None,
                  earthImage = None, orbitalObjects = [], animationTime = 0 \<rparr>"

definition new_WebGLFallback :: "webgl_env \<Rightarrow> page \<Rightarrow> (js_error \<times> page) + fallback_state" where
  "new_WebGLFallback env p =
     (case detectWebGLSupport env (new_fields, p) of
        (Inl e, s) \<Rightarrow> Inl (e, snd s)
      | (Inr b, s) \<Rightarrow> Inr s)"


definition handleWebGLContextLoss :: "fallback_state \<Rightarrow> fallback_state" where
  "handleWebGLContextLoss s = (if \<not> fallbackMode (fst s) then enableFallbackMode s else s)"

section \<open>MobileOptimizer: context loss and the overlay\<close>

text \<open>
  The renderer of the 3D scene: its canvas, whether it has \<^verbatim>\<open>setAnimationLoop\<close>, and
  whether an animation loop is installed.
\<close>

record renderer =
  domElement :: nat
  has_setAnimationLoop :: bool
  animationLoop :: bool

text \<open>
  The overlay is a \<^verbatim>\<open>div\<close> whose \<^verbatim>\<open>innerHTML\<close> holds three \<^verbatim>\<open>div\<close>s (the message
  text is in the second); it is appended to the body and a timer of 5000 ms removes it.
\<close>

definition showFallbackMessage :: "page \<Rightarrow> page" where
  "showFallbackMessage p =
     (let (overlay, p1) = createElement ''div'' p;
          (d1, p2) = createElement ''div'' p1;
          (d2, p3) = createElement ''div'' p2;
          (d3, p4) = createElement ''div'' p3;
          p5 = appendChild_body (Element ''div'' (ident overlay) [d1, d2, d3]) p4
      in setTimeout (RemoveBanner (ident overlay)) 5000 p5)"

definition MobileOptimizer_handleWebGLContextLoss :: "renderer \<Rightarrow> page \<Rightarrow> renderer \<times> page" where
  "MobileOptimizer_handleWebGLContextLoss r p =
     (let r1 = (if has_setAnimationLoop r then r \<lparr> animationLoop := False \<rparr> else r);
          p1 = showFallbackMessage p
      in (r1, setTimeout Reload 2000 p1))"

text \<open>
  \<^verbatim>\<open>setupWebGLProtection\<close> returns at once without a renderer or outside Safari;
  otherwise it registers the two listeners on the renderer's canvas and, when
  \<^verbatim>\<open>performance.memory\<close> exists (\<open>perf\<close>), starts the memory monitor.
\<close>

definition setupWebGLProtection :: "MobileOptimizer \<Rightarrow> renderer option \<Rightarrow> bool \<Rightarrow> page \<Rightarrow> page" where
  "setupWebGLProtection m ro perf p =
     (case ro of
        None \<Rightarrow> p
      | Some r \<Rightarrow>
          if \<not> isSafari m then p
          else p \<lparr> canvas_listeners := canvas_listeners p @
                     [(domElement r, ''webglcontextlost''), (domElement r, ''webglcontextrestored'')],
                   memory_monitoring := (perf \<or> memory_monitoring p) \<rparr>)"

text \<open>
  A \<^verbatim>\<open>webglcontextlost\<close> event on the renderer's canvas runs every listener
  registered there for it, in the order of registration: each call of
  \<^verbatim>\<open>setupWebGLProtection\<close> has added one, and each runs the handler.
\<close>

fun run_listeners :: "(nat \<times> string) list \<Rightarrow> renderer \<Rightarrow> page \<Rightarrow> renderer \<times> page" where
  "run_listeners [] r p = (r, p)"
| "run_listeners (l # ls) r p =
     (if l = (domElement r, ''webglcontextlost'')
      then (case MobileOptimizer_handleWebGLContextLoss r p of (r1, p1) \<Rightarrow> run_listeners ls r1 p1)
      else run_listeners ls r p)"

definition dispatch_webglcontextlost :: "renderer \<Rightarrow> page \<Rightarrow> renderer \<times> page" where
  "dispatch_webglcontextlost r p = run_listeners (canvas_listeners p) r p"

text \<open>
  For the statements: the number of those listeners, the overlay as an element, and the
  overlays and timers that so many runs of the handler leave, the first overlay with
  identity \<open>i\<close>, at the time \<open>c\<close>.
\<close>

definition loss_listeners :: "renderer \<Rightarrow> page \<Rightarrow> nat" where
  "loss_listeners r p =
     length (filter (\<lambda>l. l = (domElement r, ''webglcontextlost'')) (canvas_listeners p))"

definition overlay_at :: "nat \<Rightarrow> element" where
  "overlay_at i =
     Element ''div'' i [Element ''div'' (i + 1) [], Element ''div'' (i + 2) [],
                         Element ''div'' (i + 3) []]"

fun overlays :: "nat \<Rightarrow> nat \<Rightarrow> element list" where
  "overlays 0 i = []"
| "overlays (Suc n) i = overlay_at i # overlays n (i + 4)"

fun loss_timers :: "nat \<Rightarrow> nat \<Rightarrow> nat \<Rightarrow> (nat \<times> timer_action) list" where
  "loss_timers 0 c i = []"
| "loss_timers (Suc n) c i = (c + 5000, RemoveBanner i) # (c + 2000, Reload) # loss_timers n c (i + 4)"

section \<open>The probe's outcome in the words of the specification\<close>

text \<open>
  Capability probing fails when no context is obtainable, or the reported renderer or
  vendor string matches the blocklist, or a limit is below its floor (maximal texture
  size below 1024, maximal vertex attributes below 8; \<^verbatim>\<open>null\<close> counts as 0), or the
  query of the limits throws. A vendor that is \<^verbatim>\<open>null\<close> is never read when the
  renderer matches the first entry of the list.
\<close>

definition driver_blocklisted :: "webgl_context \<Rightarrow> bool" where
  "driver_blocklisted g =
     (case debug_renderer_info g of
        None \<Rightarrow> False
      | Some q \<Rightarrow>
          (case fst q of
             Answer renderer \<Rightarrow>
               (case snd q of
                  Answer vendor \<Rightarrow>
                    list_ex (includes_str renderer) problematicDrivers \<or>
                    list_ex (includes_str vendor) problematicDrivers
                | Null \<Rightarrow> includes_str renderer ''Software Renderer''
                | Throws \<Rightarrow> False)
           | Null \<Rightarrow> False
           | Throws \<Rightarrow> False))"

definition limit_query_throws :: "webgl_context \<Rightarrow> bool" where
  "limit_query_throws g = (MAX_TEXTURE_SIZE g = Throws \<or> MAX_VERTEX_ATTRIBS g = Throws)"

definition limits_below_floor :: "webgl_context \<Rightarrow> bool" where
  "limits_below_floor g =
     (MAX_TEXTURE_SIZE g \<noteq> Throws \<and> MAX_VERTEX_ATTRIBS g \<noteq> Throws \<and>
      (to_number (MAX_TEXTURE_SIZE g) < 1024 \<or> to_number (MAX_VERTEX_ATTRIBS g) < 8))"

definition context_unusable :: "webgl_context \<Rightarrow> bool" where
  "context_unusable g = (driver_blocklisted g \<or> limits_below_floor g \<or> limit_query_throws g)"

text \<open>
  The query of the renderer and the vendor fails when one of the two calls throws, or
  when a string that \<^verbatim>\<open>includes\<close> is called on is \<^verbatim>\<open>null\<close>: the renderer, or the
  vendor when the renderer does not match the first entry of the list.
\<close>

definition driver_query_fails :: "webgl_context \<Rightarrow> bool" where
  "driver_query_fails g =
     (case debug_renderer_info g of
        None \<Rightarrow> False
      | Some q \<Rightarrow>
          fst q = Throws \<or> snd q = Throws \<or> fst q = Null \<or>
          (snd q = Null \<and>
           (case fst q of Answer renderer \<Rightarrow> \<not> includes_str renderer ''Software Renderer''
            | Null \<Rightarrow> True | Throws \<Rightarrow> True)))"

text \<open>The context the probe works with, if any.\<close>

definition probed_context :: "webgl_env \<Rightarrow> webgl_context option" where
  "probed_context env = (case webgl env of Some g \<Rightarrow> Some g | None \<Rightarrow> experimental_webgl env)"

definition probe_throws :: "webgl_env \<Rightarrow> bool" where
  "probe_throws env = (case probed_context env of None \<Rightarrow> False | Some g \<Rightarrow> driver_query_fails g)"

definition probing_fails :: "webgl_env \<Rightarrow> bool" where
  "probing_fails env = (case probed_context env of None \<Rightarrow> True | Some g \<Rightarrow> context_unusable g)"

section \<open>Concrete pages and probes\<close>

definition empty_page :: page where
  "empty_page = \<lparr> body = [], next_node = 0, clock = 0, timers = [], resize_listeners = 0,
     canvas_listeners = [], raf_requests = 0, memory_monitoring = False, reloads = 0 \<rparr>"

text \<open>A page whose 3D canvas (identity 1) sits in a container, and a page with two canvases.\<close>

definition scene_page :: page where
  "scene_page = empty_page \<lparr> body := [Element ''div'' 0 [Element ''canvas'' 1 []]], next_node := 2 \<rparr>"

definition two_canvas_page :: page where
  "two_canvas_page =
     empty_page \<lparr> body := [Element ''canvas'' 0 [], Element ''canvas'' 1 []], next_node := 2 \<rparr>"

definition no_webgl :: webgl_env where
  "no_webgl = \<lparr> webgl = None, experimental_webgl = None \<rparr>"

definition good_webgl :: webgl_env where
  "good_webgl =
     \<lparr> webgl = Some \<lparr> debug_renderer_info = Some (Answer ''Apple GPU'', Answer ''Apple Inc.''),
                      MAX_TEXTURE_SIZE = Answer 16384, MAX_VERTEX_ATTRIBS = Answer 16 \<rparr>,
       experimental_webgl = None \<rparr>"




text \<open>
  The scene page after a constructor whose probe failed, and after one whose probe
  succeeded.
\<close>

definition fallen_back :: fallback_state where
  "fallen_back = enableFallbackMode (new_fields, scene_page \<lparr> next_node := 3 \<rparr>)"

definition still_3d :: fallback_state where
  "still_3d = (new_fields, scene_page \<lparr> next_node := 3 \<rparr>)"

definition scene_renderer :: renderer where
  "scene_renderer = \<lparr> domElement = 1, has_setAnimationLoop = True, animationLoop = True \<rparr>"

definition iphone_ua :: string where
  "iphone_ua = ''Mozilla/5.0 (iPhone; CPU iPhone OS 17_0 like Mac OS X) AppleWebKit/605.1.15 (KHTML, like Gecko) Version/17.0 Mobile/15E148 Safari/604.1''"

definition desktop_safari_ua :: string where
  "desktop_safari_ua = ''Mozilla/5.0 (Macintosh; Intel Mac OS X 10_15_7) AppleWebKit/605.1.15 (KHTML, like Gecko) Version/17.0 Safari/605.1.15''"

text \<open>
  The page after \<^verbatim>\<open>setupWebGLProtection\<close> ran for desktop Safari with the renderer of
  the scene.
\<close>

definition protected_page :: page where
  "protected_page =
     setupWebGLProtection (new_MobileOptimizer desktop_safari_ua (Some 2)) (Some scene_renderer)
       False scene_page"

text \<open>The page after a second such call.\<close>

definition twice_protected_page :: page where
  "twice_protected_page =
     setupWebGLProtection (new_MobileOptimizer desktop_safari_ua (Some 2)) (Some scene_renderer)
       False protected_page"

section \<open>The diagnostic scripts\<close>

text \<open>
  Puppeteer is an external library. Its \<^verbatim>\<open>page.goto(url, {timeout})\<close> is modelled by
  its contract: the promise resolves when the page has loaded within the timeout,
  rejects with the error of a navigation that fails within the timeout, and rejects
  with a timeout error once the timeout has passed. \<open>navigation\<close> says what the
  network does: the page loads after some milliseconds, the navigation fails after some
  milliseconds with a message, or nothing ever answers. The result of \<open>goto\<close> is the
  time waited and the outcome (\<open>Inl\<close> the message of the rejection). The scripts all
  give a timeout that is not zero.
\<close>

datatype navigation = Loads nat | Fails nat string | Hangs

definition timeout_message :: string where
  "timeout_message = ''Navigation timeout exceeded''"

definition goto :: "nat \<Rightarrow> navigation \<Rightarrow> nat \<times> (string + unit)" where
  "goto timeout nav =
     (case nav of
        Loads d \<Rightarrow> if d < timeout then (d, Inr ()) else (timeout, Inl timeout_message)
      | Fails d m \<Rightarrow> if d < timeout then (d, Inl m) else (timeout, Inl timeout_message)
      | Hangs \<Rightarrow> (timeout, Inl timeout_message))"

text \<open>An unreachable URL: the page never loads.\<close>

definition unreachable :: "navigation \<Rightarrow> bool" where
  "unreachable nav = (case nav of Loads d \<Rightarrow> False | Fails d m \<Rightarrow> True | Hangs \<Rightarrow> True)"

text \<open>
  The events a page delivers to the listeners of \<^verbatim>\<open>check.mjs\<close>: a console message
  (type and text) or a page error (an \<^verbatim>\<open>Error\<close> with its message and, when the engine
  gives one, its stack).
\<close>

record page_error =
  message :: string
  stack :: "string option"

datatype page_event = Console string string | PageError page_error

record listener_lists =
  logs :: "string list"
  errors :: "string list"

text \<open>
  The two listeners of \<^verbatim>\<open>check.mjs\<close> (those of \<^verbatim>\<open>check-site.mjs\<close> and of the
  script at the head of \<^verbatim>\<open>test-prod.mjs\<close> are the same), and those of
  \<^verbatim>\<open>check-detailed.mjs\<close>, whose page-error listener pushes
  \<^verbatim>\<open>error.stack || error.message\<close>: the stack unless it is undefined or empty. The
  listeners of \<^verbatim>\<open>check-detailed.mjs\<close> for failed requests and responses fill a third
  list and are left out.
\<close>

fun check_listener :: "listener_lists \<Rightarrow> page_event \<Rightarrow> listener_lists" where
  "check_listener l (Console ty txt) = l \<lparr> logs := logs l @ [ty @ '': '' @ txt] \<rparr>"
| "check_listener l (PageError error) = l \<lparr> errors := errors l @ [message error] \<rparr>"

definition stack_or_message :: "page_error \<Rightarrow> string" where
  "stack_or_message error =
     (case stack error of
        None \<Rightarrow> message error
      | Some st \<Rightarrow> if st = [] then message error else st)"

fun check_detailed_listener :: "listener_lists \<Rightarrow> page_event \<Rightarrow> listener_lists" where
  "check_detailed_listener l (Console ty txt) = l \<lparr> logs := logs l @ [ty @ '': '' @ txt] \<rparr>"
| "check_detailed_listener l (PageError error) =
     l \<lparr> errors := errors l @ [stack_or_message error] \<rparr>"

text \<open>
  What a run of a script gives: the lines it printed, the error that left the top-level
  \<^verbatim>\<open>await\<close> uncaught (Node prints it and ends the process with status 1), the exit
  status, and the time spent waiting for navigations.
\<close>

record script_result =
  printed :: "string list"
  uncaught :: "string option"
  exit_code :: nat
  navigation_wait :: nat

record check_env =
  navigation_of :: navigation
  page_events :: "page_event list"
  canvas_present :: bool

text \<open>
  \<^verbatim>\<open>check.mjs\<close>: no \<^verbatim>\<open>try\<close> surrounds \<^verbatim>\<open>page.goto\<close>, so a rejection ends the
  module; otherwise the script waits, prints its lists and ends with status 0.
\<close>

definition run_check :: "check_env \<Rightarrow> script_result" where
  "run_check env =
     (case goto 15000 (navigation_of env) of
        (d, Inl m) \<Rightarrow> \<lparr> printed = [], uncaught = Some m, exit_code = 1, navigation_wait = d \<rparr>
      | (d, Inr u) \<Rightarrow>
          (let l = foldl check_listener \<lparr> logs = [], errors = [] \<rparr> (page_events env)
           in \<lparr> printed =
                  [''=== Console Logs ===''] @ logs l @ [CHR 0x0A # ''=== Errors ===''] @
                  (if length (errors l) > 0 then map (\<lambda>err. ''ERROR: '' @ err) (errors l)
                   else [''No errors'']) @
                  [CHR 0x0A # ''Canvas exists: '' @ (if canvas_present env then ''true'' else ''false'')],
                uncaught = None, exit_code = 0, navigation_wait = d \<rparr>))"

text \<open>
  \<^verbatim>\<open>test-mobile-safari.mjs\<close>. For each of the four configurations the inner
  \<^verbatim>\<open>try\<close> block navigates with a timeout of 30000 ms and then measures the page;
  \<open>after_load\<close> is the outcome of the steps after the navigation (the message of an
  error thrown there, or the further time until the scene is ready). Whatever is thrown
  in the block is caught there: the message is printed and recorded, and the loop goes
  on. The browser is taken to launch; the pictographs of the printed lines are left out.
\<close>

definition testConfigs :: "string list" where
  "testConfigs =
     [''Safari Desktop (Latest)'', ''Safari Mobile iOS 17'', ''Safari Mobile iOS 16'', ''Safari iPad'']"

datatype metrics = Succeeded nat | Failed string

record safari_env =
  config_navigation :: "string \<Rightarrow> navigation"
  after_load :: "string \<Rightarrow> string + nat"

record SafariDiagnostics =
  crashPoints :: "(string \<times> string) list"
  performanceMetrics :: "(string \<times> metrics) list"
  console_lines :: "string list"
  waited :: nat

definition testSafariConfig :: "safari_env \<Rightarrow> SafariDiagnostics \<Rightarrow> string \<Rightarrow> SafariDiagnostics" where
  "testSafariConfig env st name =
     (case goto 30000 (config_navigation env name) of
        (d, r) \<Rightarrow>
          (case (case r of Inl m \<Rightarrow> Inl m | Inr u \<Rightarrow> after_load env name) of
             Inl m \<Rightarrow>
               st \<lparr> crashPoints := crashPoints st @ [(name, m)],
                    performanceMetrics := AList.update name (Failed m) (performanceMetrics st),
                    console_lines := console_lines st @ [''   Failed to load: '' @ m],
                    waited := waited st + d \<rparr>
           | Inr extra \<Rightarrow>
               st \<lparr> performanceMetrics :=
                      AList.update name (Succeeded (d + extra)) (performanceMetrics st),
                    console_lines := console_lines st @ [''   Loaded successfully''],
                    waited := waited st + d \<rparr>))"

text \<open>
  The report written at the end holds the crash points, the metrics and the
  recommendations of \<^verbatim>\<open>generateRecommendations\<close>; then the script is over and the
  process ends with status 0.
\<close>

definition generateRecommendations :: "SafariDiagnostics \<Rightarrow> string list" where
  "generateRecommendations st =
     (if list_ex (\<lambda>c. includes_str (fst c) ''Mobile'') (crashPoints st)
      then [''Mobile Optimization''] else []) @
     (if list_ex (\<lambda>c. includes_str (snd c) ''WebGL'') (crashPoints st)
      then [''WebGL Stability''] else [])"

record safari_report =
  report_crashPoints :: "(string \<times> string) list"
  report_performanceMetrics :: "(string \<times> metrics) list"
  report_recommendations :: "string list"

definition run_test_mobile_safari :: "safari_env \<Rightarrow> safari_report \<times> script_result" where
  "run_test_mobile_safari env =
     (let st = foldl (testSafariConfig env)
                 \<lparr> crashPoints = [], performanceMetrics = [], console_lines = [], waited = 0 \<rparr>
                 testConfigs
      in (\<lparr> report_crashPoints = crashPoints st,
            report_performanceMetrics = performanceMetrics st,
            report_recommendations = generateRecommendations st \<rparr>,
          \<lparr> printed = console_lines st, uncaught = None, exit_code = 0,
            navigation_wait = waited st \<rparr>))"

text \<open>
  The test runner (\<^verbatim>\<open>MobileDeviceTester.runAllTests\<close>): it first fetches the local
  server; when that fails, or when one of the two scripts it runs ends with a status
  that is not zero, the \<^verbatim>\<open>catch\<close> at the top prints the message and calls
  \<^verbatim>\<open>process.exit(1)\<close>.
\<close>

record runner_env =
  server_answers :: bool
  safari_status :: nat
  cross_browser_status :: nat

definition runAllTests :: "runner_env \<Rightarrow> script_result" where
  "runAllTests env =
     (if \<not> server_answers env then
        \<lparr> printed = [''Test suite failed: Server not available''], uncaught = None,
          exit_code = 1, navigation_wait = 0 \<rparr>
      else if safari_status env \<noteq> 0 then
        \<lparr> printed = [''   Command failed: node test-mobile-safari.mjs'',
                     ''Test suite failed: Command failed: node test-mobile-safari.mjs''],
          uncaught = None, exit_code = 1, navigation_wait = 0 \<rparr>
      else if cross_browser_status env \<noteq> 0 then
        \<lparr> printed = [''   Command failed: node test-cross-browser.mjs'',
                     ''Test suite failed: Command failed: node test-cross-browser.mjs''],
          uncaught = None, exit_code = 1, navigation_wait = 0 \<rparr>
      else \<lparr> printed = [], uncaught = None, exit_code = 0, navigation_wait = 0 \<rparr>)"

text \<open>A page error as an engine reports it, and an environment in which nothing answers.\<close>

definition boom :: page_error where
  "boom = \<lparr> message = ''boom is not defined'',
            stack = Some ''ReferenceError: boom is not defined at index.html:10:3'' \<rparr>"

definition dead_server :: safari_env where
  "dead_server = \<lparr> config_navigation = (\<lambda>name. Hangs), after_load = (\<lambda>name. Inr 0) \<rparr>"

definition refused_server :: safari_env where
  "refused_server =
     \<lparr> config_navigation = (\<lambda>name. Fails 12 ''net::ERR_CONNECTION_REFUSED at http://localhost:3000''),
       after_load = (\<lambda>name. Inr 0) \<rparr>"

text \<open>
  \<open>page_errors\<close>: the page errors among the events, in their order; \<open>goto_error\<close>:
  the message with which \<open>goto\<close> rejects.
\<close>

fun page_errors :: "page_event list \<Rightarrow> page_error list" where
  "page_errors [] = []"
| "page_errors (Console ty txt # evs) = page_errors evs"
| "page_errors (PageError error # evs) = error # page_errors evs"

definition goto_error :: "nat \<Rightarrow> navigation \<Rightarrow> string" where
  "goto_error timeout nav = (case snd (goto timeout nav) of Inl m \<Rightarrow> m | Inr u \<Rightarrow> [])"

text \<open>A run of \<^verbatim>\<open>check.mjs\<close> in which nothing answers, and a runner without its server.\<close>

definition hanging_check :: check_env where
  "hanging_check = \<lparr> navigation_of = Hangs, page_events = [], canvas_present = False \<rparr>"

definition no_server :: runner_env where
  "no_server = \<lparr> server_answers = False, safari_status = 0, cross_browser_status = 0 \<rparr>"

section \<open>MobileOptimizer: the emergency memory cleanup\<close>

text \<open>
  The objects of the scene live in a store, a map from references to objects, since
  the array \<^verbatim>\<open>window.orbitalObjects\<close> holds references and the cleanup mutates what
  they point to. An object has its parent, its children, its geometry and its material:
  none, one material, or an array of materials. Geometries and materials are references
  too; the two lists of the window record every \<^verbatim>\<open>dispose()\<close> call, in order.
\<close>

datatype material_slot = NoMaterial | OneMaterial nat | MaterialArray "nat list"

record object3d =
  parent :: "nat option"
  children :: "nat list"
  geometry :: "nat option"
  material :: material_slot

text \<open>
  The global \<^verbatim>\<open>THREE\<close>: not declared at all (reading it throws a
  \<^verbatim>\<open>ReferenceError\<close>), declared with a falsy value, or the library, without or with
  its \<^verbatim>\<open>Cache\<close>.
\<close>

datatype three_global = THREE_undeclared | THREE_falsy | THREE_without_Cache | THREE_with_Cache

record scene_window =
  objects :: "nat \<Rightarrow> object3d option"
  disposed_geometries :: "nat list"
  disposed_materials :: "nat list"
  window_orbitalObjects :: "nat list option"
  window_scene :: bool
  three :: three_global
  cache_files :: nat
  window_gc :: bool
  gc_calls :: nat

definition parent_of :: "scene_window \<Rightarrow> nat \<Rightarrow> nat option" where
  "parent_of s r = (case objects s r of None \<Rightarrow> None | Some ob \<Rightarrow> parent ob)"

text \<open>
  Three.js is an external library. \<^verbatim>\<open>Object3D.remove(child)\<close> is modelled by what it
  does: when the child is among the children of the parent, its \<^verbatim>\<open>parent\<close> becomes
  \<^verbatim>\<open>null\<close> and its first occurrence leaves the children; otherwise nothing happens.
\<close>

definition Object3D_remove :: "nat \<Rightarrow> nat \<Rightarrow> scene_window \<Rightarrow> scene_window" where
  "Object3D_remove p c s =
     (case objects s p of
        None \<Rightarrow> s
      | Some P \<Rightarrow>
          if c \<in> set (children P) then
            (let s1 = s \<lparr> objects := (objects s)
                         (c := map_option (\<lambda>ob. ob \<lparr> parent := None \<rparr>) (objects s c)) \<rparr>
             in s1 \<lparr> objects := (objects s1)
                      (p := map_option (\<lambda>ob. ob \<lparr> children := remove1 c (children ob) \<rparr>)
                              (objects s1 p)) \<rparr>)
          else s)"

definition dispose_geometry :: "scene_window \<Rightarrow> nat \<Rightarrow> scene_window" where
  "dispose_geometry s g = s \<lparr> disposed_geometries := disposed_geometries s @ [g] \<rparr>"

definition dispose_material :: "scene_window \<Rightarrow> nat \<Rightarrow> scene_window" where
  "dispose_material s m = s \<lparr> disposed_materials := disposed_materials s @ [m] \<rparr>"

text \<open>The body of the \<^verbatim>\<open>forEach\<close>: everything happens under \<^verbatim>\<open>if (obj.parent)\<close>.\<close>

definition cleanup_object :: "scene_window \<Rightarrow> nat \<Rightarrow> scene_window" where
  "cleanup_object s obj =
     (case objects s obj of
        None \<Rightarrow> s
      | Some ob \<Rightarrow>
          (case parent ob of
             None \<Rightarrow> s
           | Some p \<Rightarrow>
               (let s1 = Object3D_remove p obj s;
                    s2 = (case geometry ob of None \<Rightarrow> s1 | Some g \<Rightarrow> dispose_geometry s1 g)
                in case material ob of
                     MaterialArray ms \<Rightarrow> foldl dispose_material s2 ms
                   | OneMaterial m \<Rightarrow> dispose_material s2 m
                   | NoMaterial \<Rightarrow> s2)))"

definition clearUnusedTextures :: "scene_window \<Rightarrow> scene_window \<times> js_error option" where
  "clearUnusedTextures s =
     (case three s of
        THREE_undeclared \<Rightarrow> (s, Some ReferenceError)
      | THREE_falsy \<Rightarrow> (s, None)
      | THREE_without_Cache \<Rightarrow> (s, None)
      | THREE_with_Cache \<Rightarrow> (s \<lparr> cache_files := 0 \<rparr>, None))"

definition triggerMemoryCleanup :: "scene_window \<Rightarrow> scene_window \<times> js_error option" where
  "triggerMemoryCleanup s =
     (case (if window_scene s then clearUnusedTextures s else (s, None)) of
        (s1, Some e) \<Rightarrow> (s1, Some e)
      | (s1, None) \<Rightarrow>
          ((if window_gc s1 then s1 \<lparr> gc_calls := Suc (gc_calls s1) \<rparr> else s1), None))"

text \<open>
  The result is the window after the call and the error thrown, if any (the writes
  made before a throw stay).
\<close>

definition emergencyMemoryCleanup :: "scene_window \<Rightarrow> scene_window \<times> js_error option" where
  "emergencyMemoryCleanup s =
     triggerMemoryCleanup
       (case window_orbitalObjects s of
          None \<Rightarrow> s
        | Some objs \<Rightarrow>
            (foldl cleanup_object s (drop 2 objs)) \<lparr> window_orbitalObjects := Some (take 2 objs) \<rparr>)"

text \<open>
  Notions for the properties: the materials of a slot; an object is where its parent
  pointer says (it is among the children of its parent).
\<close>

fun materials_of :: "material_slot \<Rightarrow> nat list" where
  "materials_of NoMaterial = []"
| "materials_of (OneMaterial m) = [m]"
| "materials_of (MaterialArray ms) = ms"

definition linked :: "scene_window \<Rightarrow> nat \<Rightarrow> bool" where
  "linked s r =
     (case parent_of s r of
        None \<Rightarrow> True
      | Some p \<Rightarrow> (case objects s p of None \<Rightarrow> False | Some P \<Rightarrow> r \<in> set (children P)))"

text \<open>
  A scene (reference 1) with four orbital objects: 10, 11 and 12 are children of the
  scene, 13 has been taken out of it and has no parent.
\<close>

definition orbit :: "nat option \<Rightarrow> nat \<Rightarrow> nat \<Rightarrow> object3d" where
  "orbit p g m = \<lparr> parent = p, children = [], geometry = Some g, material = OneMaterial m \<rparr>"

definition sample_window :: scene_window where
  "sample_window =
     \<lparr> objects = [1 \<mapsto> \<lparr> parent = None, children = [10, 11, 12], geometry = None,
                           material = NoMaterial \<rparr>,
                   10 \<mapsto> orbit (Some 1) 20 30, 11 \<mapsto> orbit (Some 1) 21 31,
                   12 \<mapsto> orbit (Some 1) 22 32, 13 \<mapsto> orbit None 23 33],
       disposed_geometries = [], disposed_materials = [],
       window_orbitalObjects = Some [10, 11, 12, 13],
       window_scene = True, three = THREE_with_Cache, cache_files = 5,
       window_gc = False, gc_calls = 0 \<rparr>"

text \<open>
  The same scene with other arrays: one that holds the scene itself in front of its
  children, and one whose only entry after the second has no parent.
\<close>

definition grouped_window :: scene_window where
  "grouped_window = sample_window \<lparr> window_orbitalObjects := Some [1, 10, 11, 12] \<rparr>"

definition loose_window :: scene_window where
  "loose_window = sample_window \<lparr> window_orbitalObjects := Some [10, 11, 13] \<rparr>"

text \<open>
  For the statements: what the loop body disposes for an object as it stands in \<open>s\<close>,
  its geometry and its materials when it has a parent, nothing otherwise.
\<close>

definition disposable_geometry :: "scene_window \<Rightarrow> nat \<Rightarrow> nat list" where
  "disposable_geometry s r =
     (case objects s r of
        None \<Rightarrow> []
      | Some ob \<Rightarrow>
          (case parent ob of
             None \<Rightarrow> []
           | Some p \<Rightarrow> (case geometry ob of None \<Rightarrow> [] | Some g \<Rightarrow> [g])))"

definition disposable_materials :: "scene_window \<Rightarrow> nat \<Rightarrow> nat list" where
  "disposable_materials s r =
     (case objects s r of
        None \<Rightarrow> []
      | Some ob \<Rightarrow> (case parent ob of None \<Rightarrow> [] | Some p \<Rightarrow> materials_of (material ob)))"

text \<open>\<open>detach s obj\<close>: what the step does to the objects of the store.\<close>

definition detach :: "scene_window \<Rightarrow> nat \<Rightarrow> scene_window" where
  "detach s obj =
     (case parent_of s obj of None \<Rightarrow> s | Some p \<Rightarrow> Object3D_remove p obj s)"

section \<open>Verification: the document\<close>

lemma nodes_append: "nodes (es @ fs) = nodes es @ nodes fs"
  by (induction es rule: nodes.induct) simp_all

lemma ids_of_tag_append: "ids_of_tag tg (es @ fs) = ids_of_tag tg es @ ids_of_tag tg fs"
  by (simp add: ids_of_tag_def nodes_append)

lemma nodes_remove_node_subseq: "subseq (nodes (remove_node i es)) (nodes es)"
proof (induction i es rule: remove_node.induct)
  case (1 i)
  show ?case by simp
next
  case (2 i t j ks es)
  show ?case
  proof (cases "j = i")
    case True
    with 2 have "subseq (nodes (remove_node i es)) (nodes es)" by simp
    then have "subseq (nodes (remove_node i es)) ((t, j) # nodes ks @ nodes es)"
      by (metis list_emb_Cons list_emb_append2 append_Nil)
    with True show ?thesis by simp
  next
    case False
    with 2 have "subseq (nodes (remove_node i ks)) (nodes ks)"
      and "subseq (nodes (remove_node i es)) (nodes es)" by simp_all
    then have "subseq (nodes (remove_node i ks) @ nodes (remove_node i es)) (nodes ks @ nodes es)"
      by (rule list_emb_append_mono)
    with False show ?thesis by simp
  qed
qed

lemma nodes_remove_node_subset: "set (nodes (remove_node i es)) \<subseteq> set (nodes es)"
proof
  fix x assume a: "x \<in> set (nodes (remove_node i es))"
  show "x \<in> set (nodes es)"
    by (rule list_emb_set [OF nodes_remove_node_subseq a]) simp
qed

lemma removed_id_gone: "(t, i) \<notin> set (nodes (remove_node i es))"
  by (induction i es rule: remove_node.induct) auto

lemma querySelector_None:
  "querySelector tg es = None \<Longrightarrow> filter (\<lambda>n. fst n = tg) (nodes es) = []"
  by (induction tg es rule: querySelector.induct) (auto split: if_splits option.splits)

lemma querySelector_Some:
  "querySelector tg es = Some e \<Longrightarrow>
     \<exists>rest. filter (\<lambda>n. fst n = tg) (nodes es) = (tg, ident e) # rest"
proof (induction tg es arbitrary: e rule: querySelector.induct)
  case (1 tg)
  then show ?case by simp
next
  case (2 tg t i ks es)
  show ?case
  proof (cases "t = tg")
    case True
    with 2 show ?thesis by auto
  next
    case False
    show ?thesis
    proof (cases "querySelector tg ks")
      case None
      with 2 False have "querySelector tg es = Some e" by simp
      with 2 False None obtain rest
        where "filter (\<lambda>n. fst n = tg) (nodes es) = (tg, ident e) # rest" by blast
      with False None show ?thesis by (simp add: querySelector_None)
    next
      case (Some e')
      with 2 False have "e' = e" by simp
      with 2 False Some obtain rest
        where "filter (\<lambda>n. fst n = tg) (nodes ks) = (tg, ident e) # rest" by blast
      with False show ?thesis by simp
    qed
  qed
qed

lemma no_canvas_found:
  assumes "querySelector tg es = None"
  shows "ids_of_tag tg es = []"
  using querySelector_None [OF assms] by (simp add: ids_of_tag_def)

lemma remove_only_canvas:
  assumes "querySelector tg es = Some e" and "length (ids_of_tag tg es) \<le> 1"
  shows "ids_of_tag tg (remove_node (ident e) es) = []"
proof -
  let ?f = "filter (\<lambda>n. fst n = tg)"
  from querySelector_Some [OF assms(1)] obtain rest
    where r: "?f (nodes es) = (tg, ident e) # rest" by blast
  with assms(2) have "rest = []" by (simp add: ids_of_tag_def)
  with r have all: "?f (nodes es) = [(tg, ident e)]" by simp
  have "set (?f (nodes (remove_node (ident e) es))) \<subseteq> set (?f (nodes es))"
    using nodes_remove_node_subset [of "ident e" es] by auto
  with all have "set (?f (nodes (remove_node (ident e) es))) \<subseteq> {(tg, ident e)}" by simp
  moreover have "(tg, ident e) \<notin> set (?f (nodes (remove_node (ident e) es)))"
    using removed_id_gone [of tg "ident e" es] by simp
  ultimately have "set (?f (nodes (remove_node (ident e) es))) = {}"
    by (metis subset_singletonD insertI1)
  then have "?f (nodes (remove_node (ident e) es)) = []" by (simp only: set_empty)
  then show ?thesis by (simp add: ids_of_tag_def)
qed

section \<open>Verification: the timers\<close>

lemma next_timer_None: "next_timer ts = None \<longleftrightarrow> ts = []"
  by (induction ts) (auto split: option.splits)

lemma next_timer_set: "next_timer ts = Some (y, ys) \<Longrightarrow> set ts = insert y (set ys)"
  by (induction ts arbitrary: y ys) (auto simp: next_timer_None split: option.splits if_splits)

lemma next_timer_least: "next_timer ts = Some (y, ys) \<Longrightarrow> z \<in> set ts \<Longrightarrow> fst y \<le> fst z"
proof (induction ts arbitrary: y ys)
  case Nil
  then show ?case by simp
next
  case (Cons x xs)
  show ?case
  proof (cases "next_timer xs")
    case None
    then have "xs = []" by (simp add: next_timer_None)
    with Cons.prems None show ?thesis by auto
  next
    case (Some r)
    obtain y' ys' where r: "r = (y', ys')" by (cases r)
    with Some have nt: "next_timer xs = Some (y', ys')" by simp
    have least: "z \<in> set xs \<Longrightarrow> fst y' \<le> fst z" by (rule Cons.IH [OF nt])
    show ?thesis
    proof (cases "fst x \<le> fst y'")
      case True
      with nt Cons.prems(1) have "y = x" by simp
      with True least Cons.prems(2) show ?thesis by fastforce
    next
      case False
      with nt Cons.prems(1) have "y = y'" by simp
      with False least Cons.prems(2) show ?thesis by fastforce
    qed
  qed
qed

lemma fire_keeps_detached: "\<not> attached i p \<Longrightarrow> \<not> attached i (fire a p)"
proof (cases a)
  case (RemoveBanner j)
  then show "\<not> attached i p \<Longrightarrow> \<not> attached i (fire a p)"
    using nodes_remove_node_subset [of j "body p"] by (auto simp: attached_def)
next
  case Reload
  then show "\<not> attached i p \<Longrightarrow> \<not> attached i (fire a p)" by (simp add: attached_def)
qed

lemma run_until_keeps_detached: "\<not> attached i p \<Longrightarrow> \<not> attached i (run_until t p)"
proof (induction t p rule: run_until.induct)
  case (1 t p)
  show ?case
  proof (cases "next_timer (timers p)")
    case None
    with 1(2) show ?thesis by (simp add: run_until.simps [of t p] attached_def)
  next
    case (Some x)
    obtain d a rest where "x = ((d, a), rest)" by (metis prod.exhaust)
    with Some have nt: "next_timer (timers p) = Some ((d, a), rest)" by simp
    show ?thesis
    proof (cases "d \<le> t")
      case True
      let ?q = "p \<lparr> timers := rest, clock := max (clock p) d \<rparr>"
      have "\<not> attached i ?q" using 1(2) by (simp add: attached_def)
      then have "\<not> attached i (fire a ?q)" by (rule fire_keeps_detached)
      then have "\<not> attached i (run_until t (fire a ?q))"
        by (rule 1(1) [OF nt refl refl True])
      with nt True show ?thesis by (simp add: run_until.simps [of t p])
    next
      case False
      with nt 1(2) show ?thesis by (simp add: run_until.simps [of t p] attached_def)
    qed
  qed
qed

lemma fire_timers: "timers (fire a p) = (if a = Reload then [] else timers p)"
  by (cases a) simp_all

lemma run_until_removes_banner:
  "(d, RemoveBanner i) \<in> set (timers p) \<Longrightarrow> d \<le> t \<Longrightarrow> \<not> attached i (run_until t p)"
proof (induction t p rule: run_until.induct)
  case (1 t p)
  show ?case
  proof (cases "next_timer (timers p)")
    case None
    with 1(2) show ?thesis by (simp add: next_timer_None)
  next
    case (Some x)
    obtain e a rest where "x = ((e, a), rest)" by (metis prod.exhaust)
    with Some have nt: "next_timer (timers p) = Some ((e, a), rest)" by simp
    from next_timer_least [OF nt 1(2)] 1(3) have due: "e \<le> t" by simp
    let ?q = "p \<lparr> timers := rest, clock := max (clock p) e \<rparr>"
    have unfold: "run_until t p = run_until t (fire a ?q)"
      using nt due by (simp add: run_until.simps [of t p])
    show ?thesis
    proof (cases "a = RemoveBanner i \<or> a = Reload")
      case True
      then have "\<not> attached i (fire a ?q)"
        using removed_id_gone [of _ i "body p"] by (auto simp: attached_def)
      then show ?thesis unfolding unfold by (rule run_until_keeps_detached)
    next
      case False
      then have "(e, a) \<noteq> (d, RemoveBanner i)" by simp
      with next_timer_set [OF nt] 1(2) have "(d, RemoveBanner i) \<in> set rest" by auto
      with False have "(d, RemoveBanner i) \<in> set (timers (fire a ?q))" by (simp add: fire_timers)
      then have "\<not> attached i (run_until t (fire a ?q))"
        using 1(3) by (rule 1(1) [OF nt refl refl due])
      then show ?thesis unfolding unfold .
    qed
  qed
qed

lemma fire_reloads: "reloads p \<le> reloads (fire a p)"
  by (cases a) simp_all

lemma run_until_reloads_mono: "reloads p \<le> reloads (run_until t p)"
proof (induction t p rule: run_until.induct)
  case (1 t p)
  show ?case
  proof (cases "next_timer (timers p)")
    case None
    then show ?thesis by (simp add: run_until.simps [of t p])
  next
    case (Some x)
    obtain d a rest where "x = ((d, a), rest)" by (metis prod.exhaust)
    with Some have nt: "next_timer (timers p) = Some ((d, a), rest)" by simp
    show ?thesis
    proof (cases "d \<le> t")
      case True
      let ?q = "p \<lparr> timers := rest, clock := max (clock p) d \<rparr>"
      have "reloads ?q \<le> reloads (fire a ?q)" by (rule fire_reloads)
      moreover have "reloads (fire a ?q) \<le> reloads (run_until t (fire a ?q))"
        by (rule 1 [OF nt refl refl True])
      ultimately show ?thesis using nt True by (simp add: run_until.simps [of t p])
    next
      case False
      with nt show ?thesis by (simp add: run_until.simps [of t p])
    qed
  qed
qed

lemma run_until_reloads:
  "(d, Reload) \<in> set (timers p) \<Longrightarrow> d \<le> t \<Longrightarrow> reloads p < reloads (run_until t p)"
proof (induction t p rule: run_until.induct)
  case (1 t p)
  show ?case
  proof (cases "next_timer (timers p)")
    case None
    with 1(2) show ?thesis by (simp add: next_timer_None)
  next
    case (Some x)
    obtain e a rest where "x = ((e, a), rest)" by (metis prod.exhaust)
    with Some have nt: "next_timer (timers p) = Some ((e, a), rest)" by simp
    from next_timer_least [OF nt 1(2)] 1(3) have due: "e \<le> t" by simp
    let ?q = "p \<lparr> timers := rest, clock := max (clock p) e \<rparr>"
    have unfold: "run_until t p = run_until t (fire a ?q)"
      using nt due by (simp add: run_until.simps [of t p])
    show ?thesis
    proof (cases "a = Reload")
      case True
      then have "reloads p < reloads (fire a ?q)" by simp
      also have "\<dots> \<le> reloads (run_until t (fire a ?q))" by (rule run_until_reloads_mono)
      finally show ?thesis unfolding unfold .
    next
      case False
      then have "(e, a) \<noteq> (d, Reload)" by simp
      with next_timer_set [OF nt] 1(2) have "(d, Reload) \<in> set rest" by auto
      with False have "(d, Reload) \<in> set (timers (fire a ?q))" by (simp add: fire_timers)
      then have "reloads (fire a ?q) < reloads (run_until t (fire a ?q))"
        using 1(3) by (rule 1(1) [OF nt refl refl due])
      moreover have "reloads p \<le> reloads (fire a ?q)"
        using fire_reloads [of ?q a] by simp
      ultimately show ?thesis unfolding unfold by simp
    qed
  qed
qed

section \<open>Verification: the presets\<close>

text \<open>
  The two tests of the model say what the regular expressions say: an alternative
  matches somewhere in the string, character by character.
\<close>

lemma starts_with_iff:
  "starts_with ic t s \<longleftrightarrow> (\<exists>x suf. s = x @ suf \<and> list_all2 (char_match ic) t x)"
proof (induction ic t s rule: starts_with.induct)
  case (1 ic s)
  then show ?case by simp
next
  case (2 ic p ps)
  then show ?case by (simp add: list_all2_Cons1)
next
  case (3 ic p ps c cs)
  have "starts_with ic (p # ps) (c # cs) \<longleftrightarrow>
        char_match ic p c \<and> (\<exists>x suf. cs = x @ suf \<and> list_all2 (char_match ic) ps x)"
    using 3 by simp
  also have "\<dots> \<longleftrightarrow> (\<exists>x suf. c # cs = x @ suf \<and> list_all2 (char_match ic) (p # ps) x)"
    by (auto simp: list_all2_Cons1 Cons_eq_append_conv)
  finally show ?case .
qed

lemma regex_test_iff:
  "regex_test ic ts s \<longleftrightarrow>
     (\<exists>t pre x suf. t \<in> set ts \<and> s = pre @ x @ suf \<and> list_all2 (char_match ic) t x)"
proof (induction s)
  case Nil
  show ?case by (auto simp: list_ex_iff starts_with_iff)
next
  case (Cons c cs)
  have "regex_test ic ts (c # cs) \<longleftrightarrow>
     (\<exists>t x suf. t \<in> set ts \<and> c # cs = x @ suf \<and> list_all2 (char_match ic) t x) \<or>
     (\<exists>t pre x suf. t \<in> set ts \<and> cs = pre @ x @ suf \<and> list_all2 (char_match ic) t x)"
    using Cons by (auto simp: list_ex_iff starts_with_iff)
  also have "\<dots> \<longleftrightarrow>
     (\<exists>t pre x suf. t \<in> set ts \<and> c # cs = pre @ x @ suf \<and> list_all2 (char_match ic) t x)"
    (is "?A \<or> ?B \<longleftrightarrow> ?C")
  proof
    assume "?A \<or> ?B"
    then show ?C
    proof
      assume ?A
      then obtain t x suf
        where "t \<in> set ts" "c # cs = [] @ x @ suf" "list_all2 (char_match ic) t x" by auto
      then show ?C by blast
    next
      assume ?B
      then obtain t pre x suf
        where "t \<in> set ts" "c # cs = (c # pre) @ x @ suf" "list_all2 (char_match ic) t x" by auto
      then show ?C by blast
    qed
  next
    assume ?C
    then obtain t pre x suf
      where h: "t \<in> set ts" "c # cs = pre @ x @ suf" "list_all2 (char_match ic) t x" by blast
    show "?A \<or> ?B"
    proof (cases pre)
      case Nil
      with h show ?thesis by auto
    next
      case (Cons a pre')
      with h have "cs = pre' @ x @ suf" by simp
      with h show ?thesis by blast
    qed
  qed
  finally show ?case .
qed

lemmas preset_defs = new_MobileOptimizer_def getOptimizedStarCount_def getPerformanceSettings_def
  getOptimizedCameraSettings_def getOptimizedLighting_def getOptimizedRendererOptions_def
  estimateMemoryLimit_def

text \<open>
  Claim C3. A user agent in which \<^verbatim>\<open>iPhone\<close>, \<^verbatim>\<open>iPad\<close>, \<^verbatim>\<open>iPod\<close> or
  \<^verbatim>\<open>Android\<close> occurs, in any letter case, gets the mobile bundle: 150 stars when the
  iOS flag is set and 200 otherwise, both below the 400 of the desktop, a pixel ratio
  that is the device's capped at 1, and the mobile camera. The iOS flag is the test for
  \<^verbatim>\<open>iPad\<close>, \<^verbatim>\<open>iPhone\<close> or \<^verbatim>\<open>iPod\<close> in exactly this letter case.
\<close>

theorem mobile_token_selects_mobile_bundle:
  assumes "regex_test True [''iPhone'', ''iPad'', ''iPod'', ''Android''] ua"
  shows "getOptimizedStarCount (new_MobileOptimizer ua wdpr) =
           (if isIOS (new_MobileOptimizer ua wdpr) then 150 else 200)
       \<and> isIOS (new_MobileOptimizer ua wdpr) = regex_test False [''iPad'', ''iPhone'', ''iPod''] ua
       \<and> getOptimizedStarCount (new_MobileOptimizer ua wdpr) < 400
       \<and> pixelRatio (getPerformanceSettings (new_MobileOptimizer ua wdpr))
           = min (devicePixelRatio (new_MobileOptimizer ua wdpr)) 1
       \<and> pixelRatio (getPerformanceSettings (new_MobileOptimizer ua wdpr)) \<le> 1
       \<and> getOptimizedCameraSettings (new_MobileOptimizer ua wdpr)
           = \<lparr> fov = 45, near = 1 / 10, far = 1000, position = (0, 0, 22) \<rparr>"
  using assms by (simp add: preset_defs Let_def)

text \<open>The theorem at the user agent of an iPhone with a device pixel ratio of 3.\<close>

theorem mobile_token_selects_mobile_bundle_witness:
  "regex_test True [''iPhone'', ''iPad'', ''iPod'', ''Android''] iphone_ua
   \<and> getOptimizedStarCount (new_MobileOptimizer iphone_ua (Some 3)) = 150
   \<and> pixelRatio (getPerformanceSettings (new_MobileOptimizer iphone_ua (Some 3))) = 1"
proof -
  have h: "regex_test True [''iPhone'', ''iPad'', ''iPod'', ''Android''] iphone_ua"
    by code_simp
  have ios: "isIOS (new_MobileOptimizer iphone_ua (Some 3))"
    by code_simp
  have dpr: "devicePixelRatio (new_MobileOptimizer iphone_ua (Some 3)) = 3"
    by (simp add: new_MobileOptimizer_def Let_def)
  from mobile_token_selects_mobile_bundle [OF h, of "Some 3"] h ios dpr show ?thesis by simp
qed

text \<open>
  Claim C4. A user agent without a mobile token (the empty string is one) gets the
  desktop bundle from every getter: 400 stars, the camera with a field of view of 60,
  the desktop lights, and the performance settings whose pixel ratio is the device's
  capped at 2. The getters have no failing branch: each returns a record. The Safari
  flag plays no part in them, so the theorem does not ask for its absence.
\<close>

theorem unknown_agent_selects_desktop_bundle:
  assumes "\<not> regex_test True [''iPhone'', ''iPad'', ''iPod'', ''Android''] ua"
  shows "getOptimizedStarCount (new_MobileOptimizer ua wdpr) = 400
       \<and> getOptimizedCameraSettings (new_MobileOptimizer ua wdpr)
           = \<lparr> fov = 60, near = 1, far = 2000, position = (0, 0, 28) \<rparr>
       \<and> getOptimizedLighting (new_MobileOptimizer ua wdpr)
           = \<lparr> sunLight = \<lparr> color = 0xffffff, intensity = 8 \<rparr>,
               ambientLight = \<lparr> color = 0xffffff, intensity = 4 / 10 \<rparr>,
               rimLight = \<lparr> color = 0xd4e5ff, intensity = 6 \<rparr>,
               textLight = \<lparr> color = 0xfff8e7, intensity = 5 \<rparr>,
               textLightDistance = 30 \<rparr>
       \<and> getPerformanceSettings (new_MobileOptimizer ua wdpr)
           = \<lparr> pixelRatio = min (devicePixelRatio (new_MobileOptimizer ua wdpr)) 2,
               shadowMapSize = 2048, maxLights = 8, enableShadows = True,
               enablePostProcessing = False, textureQuality = ''high'' \<rparr>
       \<and> pixelRatio (getPerformanceSettings (new_MobileOptimizer ua wdpr)) \<le> 2"
  using assms by (simp add: preset_defs Let_def)

text \<open>The theorem at the empty user agent, with no device pixel ratio reported.\<close>

theorem unknown_agent_selects_desktop_bundle_witness:
  "\<not> regex_test True [''iPhone'', ''iPad'', ''iPod'', ''Android''] ''''
   \<and> \<not> safari_regex_test ''''
   \<and> getOptimizedStarCount (new_MobileOptimizer '''' None) = 400
   \<and> fov (getOptimizedCameraSettings (new_MobileOptimizer '''' None)) = 60
   \<and> pixelRatio (getPerformanceSettings (new_MobileOptimizer '''' None)) = 1"
proof -
  have h: "\<not> regex_test True [''iPhone'', ''iPad'', ''iPod'', ''Android''] ''''" by simp
  have s: "\<not> safari_regex_test ''''" by simp
  have dpr: "devicePixelRatio (new_MobileOptimizer '''' None) = 1"
    by (simp add: new_MobileOptimizer_def Let_def)
  from unknown_agent_selects_desktop_bundle [OF h, of None] h s dpr show ?thesis by simp
qed

section \<open>Verification: the fallback\<close>

lemmas fallback_defs = enableFallbackMode_def initializeFallbackCanvas_def
  createFallbackScene_def startFallbackAnimation_def showFallbackNotification_def
  createElement_def appendChild_body_def setTimeout_def

lemma enableFallbackMode_body:
  "body (snd (enableFallbackMode (w, p))) =
     (case querySelector ''canvas'' (body p) of
        Some existingCanvas \<Rightarrow> remove_node (ident existingCanvas) (body p)
      | None \<Rightarrow> body p)
     @ [Element ''canvas'' (next_node p) [],
        Element ''div'' (next_node p + 2)
          [Element ''div'' (next_node p + 3) [], Element ''div'' (next_node p + 4) []]]"
  by (simp add: fallback_defs Let_def split: option.splits)

lemma enableFallbackMode_fields:
  "fallbackMode (fst (enableFallbackMode (w, p))) \<and>
   canvas (fst (enableFallbackMode (w, p))) = Some (next_node p) \<and>
   timers (snd (enableFallbackMode (w, p))) =
     timers p @ [(clock p + 5000, RemoveBanner (next_node p + 2))] \<and>
   clock (snd (enableFallbackMode (w, p))) = clock p"
  by (simp add: fallback_defs Let_def split: option.splits)

lemma enableFallbackMode_canvases:
  assumes "length (ids_of_tag ''canvas'' (body p)) \<le> 1"
  shows "ids_of_tag ''canvas'' (body (snd (enableFallbackMode (w, p)))) = [next_node p]"
proof -
  have old: "ids_of_tag ''canvas''
      (case querySelector ''canvas'' (body p) of
        Some existingCanvas \<Rightarrow> remove_node (ident existingCanvas) (body p)
      | None \<Rightarrow> body p) = []"
  proof (cases "querySelector ''canvas'' (body p)")
    case None
    then show ?thesis by (simp add: no_canvas_found)
  next
    case (Some e)
    then show ?thesis using remove_only_canvas [OF Some assms] by simp
  qed
  have "ids_of_tag ''canvas'' (body (snd (enableFallbackMode (w, p)))) =
       [] @ ids_of_tag ''canvas'' [Element ''canvas'' (next_node p) [],
        Element ''div'' (next_node p + 2)
          [Element ''div'' (next_node p + 3) [], Element ''div'' (next_node p + 4) []]]"
    unfolding enableFallbackMode_body ids_of_tag_append old ..
  then show ?thesis by (simp add: ids_of_tag_def)
qed

lemma hasProblematicDriver_strings:
  "hasProblematicDriver (Some r) (Some v) ds =
     Inr (list_ex (includes_str r) ds \<or> list_ex (includes_str v) ds)"
  by (induction ds) auto

lemma hasProblematicDriver_null_renderer:
  "hasProblematicDriver None vendor problematicDrivers = Inl TypeError"
  by (simp add: problematicDrivers_def)

lemma hasProblematicDriver_null_vendor:
  "hasProblematicDriver (Some r) None problematicDrivers =
     (if includes_str r ''Software Renderer'' then Inr True else Inl TypeError)"
  by (simp add: problematicDrivers_def)

lemma driver_check_cases:
  "driver_check (rq, vq) =
     (case rq of
        Throws \<Rightarrow> Inl QueryError
      | Null \<Rightarrow> (if vq = Throws then Inl QueryError else Inl TypeError)
      | Answer r \<Rightarrow>
          (case vq of
             Throws \<Rightarrow> Inl QueryError
           | Null \<Rightarrow> (if includes_str r ''Software Renderer'' then Inr True else Inl TypeError)
           | Answer v \<Rightarrow>
               Inr (list_ex (includes_str r) problematicDrivers \<or>
                    list_ex (includes_str v) problematicDrivers)))"
  by (cases rq; cases vq)
     (simp_all add: driver_check_def returned_def hasProblematicDriver_strings
        hasProblematicDriver_null_renderer hasProblematicDriver_null_vendor)


lemma driver_block_returns:
  assumes "\<not> driver_query_fails g"
  shows "(case debug_renderer_info g of None \<Rightarrow> Inr False | Some q \<Rightarrow> driver_check q)
           = Inr (driver_blocklisted g)"
proof (cases "debug_renderer_info g")
  case None
  then show ?thesis by (simp add: driver_blocklisted_def)
next
  case (Some q)
  obtain rq vq where q: "q = (rq, vq)" by (cases q)
  with assms Some show ?thesis
    by (cases rq; cases vq)
       (simp_all add: driver_query_fails_def driver_blocklisted_def driver_check_cases)
qed


lemma detect_returns:
  assumes "\<not> probe_throws env"
  shows "detectWebGLSupport env (w, p) =
     (if probing_fails env
      then (Inr False, enableFallbackMode (w, p \<lparr> next_node := Suc (next_node p) \<rparr>))
      else (Inr True, (w, p \<lparr> next_node := Suc (next_node p) \<rparr>)))"
proof (cases "probed_context env")
  case None
  then show ?thesis
    by (simp add: detectWebGLSupport_def createElement_def probed_context_def probing_fails_def)
next
  case (Some g)
  with assms have "\<not> driver_query_fails g" by (simp add: probe_throws_def)
  from driver_block_returns [OF this] Some show ?thesis
    by (simp add: detectWebGLSupport_def createElement_def probed_context_def probing_fails_def
        context_unusable_def limits_below_floor_def limit_query_throws_def)
qed

lemma new_WebGLFallback_returns:
  assumes "\<not> probe_throws env"
  shows "new_WebGLFallback env p =
     Inr (if probing_fails env
          then enableFallbackMode (new_fields, p \<lparr> next_node := Suc (next_node p) \<rparr>)
          else (new_fields, p \<lparr> next_node := Suc (next_node p) \<rparr>))"
  by (simp add: new_WebGLFallback_def detect_returns [OF assms])


text \<open>
  Claim C1. When capability probing fails (no context is obtainable, or one of the
  other conditions holds), on a document that holds at most one canvas (the 3D canvas),
  the constructor ends in fallback mode and the document then holds exactly one canvas:
  the fallback canvas of the object (\<^verbatim>\<open>this.canvas\<close>), freshly created, so that no
  canvas present before remains. The probe canvas and the canvas of the Earth image are
  never attached.
\<close>

theorem fallback_leaves_single_canvas:
  assumes "probing_fails env" and "\<not> probe_throws env"
    and "length (ids_of_tag ''canvas'' (body p)) \<le> 1"
  shows "new_WebGLFallback env p =
           Inr (enableFallbackMode (new_fields, p \<lparr> next_node := Suc (next_node p) \<rparr>))
       \<and> ids_of_tag ''canvas''
           (body (snd (enableFallbackMode (new_fields, p \<lparr> next_node := Suc (next_node p) \<rparr>))))
           = [Suc (next_node p)]
       \<and> canvas (fst (enableFallbackMode (new_fields, p \<lparr> next_node := Suc (next_node p) \<rparr>)))
           = Some (Suc (next_node p))
       \<and> fallbackMode (fst (enableFallbackMode (new_fields, p \<lparr> next_node := Suc (next_node p) \<rparr>)))
       \<and> ((\<forall>n\<in>set (nodes (body p)). snd n < next_node p) \<longrightarrow>
            Suc (next_node p) \<notin> set (ids_of_tag ''canvas'' (body p)))"
proof -
  let ?p1 = "p \<lparr> next_node := Suc (next_node p) \<rparr>"
  have c: "length (ids_of_tag ''canvas'' (body ?p1)) \<le> 1" using assms(3) by simp
  have n: "new_WebGLFallback env p = Inr (enableFallbackMode (new_fields, ?p1))"
    using assms(1) by (simp add: new_WebGLFallback_returns [OF assms(2)])
  have f: "Suc (next_node p) \<notin> set (ids_of_tag ''canvas'' (body p))"
    if "\<forall>n\<in>set (nodes (body p)). snd n < next_node p"
    using that by (fastforce simp: ids_of_tag_def)
  from n f enableFallbackMode_canvases [OF c, of new_fields] show ?thesis
    by (simp add: enableFallbackMode_fields)
qed

text \<open>The theorem at the page whose only canvas is the 3D canvas of identity 1.\<close>

theorem fallback_leaves_single_canvas_witness:
  "probing_fails no_webgl \<and> \<not> probe_throws no_webgl
   \<and> ids_of_tag ''canvas'' (body scene_page) = [1]
   \<and> new_WebGLFallback no_webgl scene_page = Inr fallen_back
   \<and> ids_of_tag ''canvas'' (body (snd fallen_back)) = [3]
   \<and> canvas (fst fallen_back) = Some 3"
proof -
  have a: "probing_fails no_webgl" and b: "\<not> probe_throws no_webgl"
    by (simp_all add: probing_fails_def probe_throws_def probed_context_def no_webgl_def)
  have c: "ids_of_tag ''canvas'' (body scene_page) = [1]"
    by (simp add: scene_page_def empty_page_def ids_of_tag_def)
  then have d: "length (ids_of_tag ''canvas'' (body scene_page)) \<le> 1" by simp
  have n: "next_node scene_page = 2" by (simp add: scene_page_def empty_page_def)
  from fallback_leaves_single_canvas [OF a b d] a b c n show ?thesis
    by (simp add: fallen_back_def)
qed

text \<open>
  The assumption on the document is needed: \<^verbatim>\<open>querySelector\<close> finds one canvas, so on
  a page with two canvases side by side the second (identity 1) stays beside the
  fallback canvas (identity 3).
\<close>

lemma second_canvas_stays:
  "ids_of_tag ''canvas'' (body two_canvas_page) = [0, 1]
   \<and> ids_of_tag ''canvas''
        (body (snd (enableFallbackMode (new_fields, two_canvas_page \<lparr> next_node := 3 \<rparr>)))) = [1, 3]"
  by (simp add: fallback_defs two_canvas_page_def empty_page_def ids_of_tag_def)




lemma handle_when_active: "fallbackMode (fst s) \<Longrightarrow> handleWebGLContextLoss s = s"
  by (simp add: handleWebGLContextLoss_def)

lemma handle_activates: "fallbackMode (fst (handleWebGLContextLoss s))"
  by (cases s) (simp add: handleWebGLContextLoss_def enableFallbackMode_fields)

text \<open>
  Claim C2. \<^verbatim>\<open>handleWebGLContextLoss\<close> changes nothing when fallback mode is already
  active; calling it twice, or any number of times, gives the state of calling it once,
  so at most one activation mounts a fallback canvas.
\<close>

theorem context_loss_activates_at_most_once:
  "(fallbackMode (fst s) \<longrightarrow> handleWebGLContextLoss s = s)
   \<and> handleWebGLContextLoss (handleWebGLContextLoss s) = handleWebGLContextLoss s
   \<and> (handleWebGLContextLoss ^^ Suc n) s = handleWebGLContextLoss s"
proof -
  have twice: "handleWebGLContextLoss (handleWebGLContextLoss s) = handleWebGLContextLoss s"
    by (rule handle_when_active [OF handle_activates])
  have "(handleWebGLContextLoss ^^ Suc n) s = handleWebGLContextLoss s"
  proof (induction n)
    case 0
    show ?case by simp
  next
    case (Suc n)
    have "(handleWebGLContextLoss ^^ Suc (Suc n)) s
            = handleWebGLContextLoss ((handleWebGLContextLoss ^^ Suc n) s)" by simp
    also have "\<dots> = handleWebGLContextLoss (handleWebGLContextLoss s)" by (simp only: Suc)
    finally show ?case by (simp only: twice)
  qed
  with twice show ?thesis by (simp add: handle_when_active)
qed

text \<open>
  The theorem after a constructor that went to fallback mode, and after one that did not
  (three context losses then mount one fallback canvas, of identity 3).
\<close>

theorem context_loss_activates_at_most_once_witness:
  "new_WebGLFallback no_webgl scene_page = Inr fallen_back
   \<and> fallbackMode (fst fallen_back)
   \<and> handleWebGLContextLoss fallen_back = fallen_back
   \<and> new_WebGLFallback good_webgl scene_page = Inr still_3d
   \<and> \<not> fallbackMode (fst still_3d)
   \<and> (handleWebGLContextLoss ^^ 3) still_3d = handleWebGLContextLoss still_3d
   \<and> ids_of_tag ''canvas'' (body (snd (handleWebGLContextLoss still_3d))) = [3]"
proof -
  have n: "new_WebGLFallback no_webgl scene_page = Inr fallen_back"
    "new_WebGLFallback good_webgl scene_page = Inr still_3d" by code_simp+
  have a: "fallbackMode (fst fallen_back)" by code_simp
  have b: "\<not> fallbackMode (fst still_3d)" by code_simp
  have c: "ids_of_tag ''canvas'' (body (snd (handleWebGLContextLoss still_3d))) = [3]"
    by code_simp
  have d: "(3::nat) = Suc 2" by simp
  from context_loss_activates_at_most_once [of fallen_back 0]
    context_loss_activates_at_most_once [of still_3d 2] n a b c
  show ?thesis unfolding d by simp
qed

section \<open>Verification: banners and context loss\<close>

lemma showFallbackMessage_fields:
  "body (showFallbackMessage p) =
     body p @ [Element ''div'' (next_node p)
                 [Element ''div'' (next_node p + 1) [], Element ''div'' (next_node p + 2) [],
                  Element ''div'' (next_node p + 3) []]]
   \<and> timers (showFallbackMessage p) = timers p @ [(clock p + 5000, RemoveBanner (next_node p))]
   \<and> clock (showFallbackMessage p) = clock p
   \<and> reloads (showFallbackMessage p) = reloads p"
  by (simp add: showFallbackMessage_def createElement_def appendChild_body_def setTimeout_def)

lemma showFallbackNotification_fields:
  "body (snd (showFallbackNotification (w, p))) =
     body p @ [Element ''div'' (next_node p)
                 [Element ''div'' (next_node p + 1) [], Element ''div'' (next_node p + 2) []]]
   \<and> timers (snd (showFallbackNotification (w, p))) =
       timers p @ [(clock p + 5000, RemoveBanner (next_node p))]"
  by (simp add: showFallbackNotification_def createElement_def appendChild_body_def setTimeout_def)

lemma context_loss_fields:
  "body (snd (MobileOptimizer_handleWebGLContextLoss r p)) = body (showFallbackMessage p)
   \<and> timers (snd (MobileOptimizer_handleWebGLContextLoss r p)) =
       timers p @ [(clock p + 5000, RemoveBanner (next_node p)), (clock p + 2000, Reload)]
   \<and> reloads (snd (MobileOptimizer_handleWebGLContextLoss r p)) = reloads p
   \<and> animationLoop (fst (MobileOptimizer_handleWebGLContextLoss r p)) =
       (animationLoop r \<and> \<not> has_setAnimationLoop r)"
  by (simp add: MobileOptimizer_handleWebGLContextLoss_def Let_def setTimeout_def
      showFallbackMessage_fields)

text \<open>
  Claim C9. The overlay of \<^verbatim>\<open>showFallbackMessage\<close> and the notification of
  \<^verbatim>\<open>showFallbackNotification\<close> are attached when shown, each with one timer of
  5000 ms that removes it; at every time from 5000 ms after the call on, the banner is
  not in the document, whatever other timers were pending. The same holds on the two
  rendering-failure paths that raise them (on the context-loss path of MobileOptimizer
  the reload of the page at 2000 ms has discarded the document before).
\<close>

theorem banners_removed_after_5_seconds:
  assumes "clock p + 5000 \<le> t"
  shows "attached (next_node p) (showFallbackMessage p)
       \<and> timers (showFallbackMessage p) = timers p @ [(clock p + 5000, RemoveBanner (next_node p))]
       \<and> \<not> attached (next_node p) (run_until t (showFallbackMessage p))
       \<and> \<not> attached (next_node p) (run_until t (snd (MobileOptimizer_handleWebGLContextLoss r p)))
       \<and> attached (next_node p) (snd (showFallbackNotification (w, p)))
       \<and> timers (snd (showFallbackNotification (w, p))) =
           timers p @ [(clock p + 5000, RemoveBanner (next_node p))]
       \<and> \<not> attached (next_node p) (run_until t (snd (showFallbackNotification (w, p))))
       \<and> attached (next_node p + 2) (snd (enableFallbackMode (w, p)))
       \<and> \<not> attached (next_node p + 2) (run_until t (snd (enableFallbackMode (w, p))))"
proof -
  have a: "attached (next_node p) (showFallbackMessage p)"
    by (simp add: attached_def showFallbackMessage_fields nodes_append)
  have b: "\<not> attached (next_node p) (run_until t (showFallbackMessage p))"
    by (rule run_until_removes_banner [OF _ assms]) (simp add: showFallbackMessage_fields)
  have c: "\<not> attached (next_node p) (run_until t (snd (MobileOptimizer_handleWebGLContextLoss r p)))"
    by (rule run_until_removes_banner [OF _ assms]) (simp add: context_loss_fields)
  have d: "attached (next_node p) (snd (showFallbackNotification (w, p)))"
    by (simp add: attached_def showFallbackNotification_fields nodes_append)
  have e: "\<not> attached (next_node p) (run_until t (snd (showFallbackNotification (w, p))))"
    by (rule run_until_removes_banner [OF _ assms]) (simp add: showFallbackNotification_fields)
  have f: "attached (next_node p + 2) (snd (enableFallbackMode (w, p)))"
    by (simp add: attached_def enableFallbackMode_body nodes_append)
  have g: "\<not> attached (next_node p + 2) (run_until t (snd (enableFallbackMode (w, p))))"
    by (rule run_until_removes_banner [OF _ assms]) (simp add: enableFallbackMode_fields)
  from a b c d e f g show ?thesis
    by (simp add: showFallbackMessage_fields showFallbackNotification_fields)
qed

text \<open>
  The theorem at the scene page and the time 5000: the overlay is there at 4999 ms and
  gone at 5000 ms.
\<close>

theorem banners_removed_after_5_seconds_witness:
  "clock scene_page + 5000 \<le> 5000
   \<and> attached 2 (showFallbackMessage scene_page)
   \<and> attached 2 (run_until 4999 (showFallbackMessage scene_page))
   \<and> \<not> attached 2 (run_until 5000 (showFallbackMessage scene_page))
   \<and> attached 4 (snd (enableFallbackMode (new_fields, scene_page)))
   \<and> \<not> attached 4 (run_until 5000 (snd (enableFallbackMode (new_fields, scene_page))))"
proof -
  have c: "clock scene_page + 5000 \<le> 5000" and n: "next_node scene_page = 2"
    by (simp_all add: scene_page_def empty_page_def)
  have before: "attached 2 (run_until 4999 (showFallbackMessage scene_page))" by code_simp
  from banners_removed_after_5_seconds [OF c, of scene_renderer new_fields] c n before
  show ?thesis by simp
qed

lemma handle_page:
  "snd (MobileOptimizer_handleWebGLContextLoss r p) =
     p \<lparr> body := body p @ [overlay_at (next_node p)],
         timers := timers p @ [(clock p + 5000, RemoveBanner (next_node p)), (clock p + 2000, Reload)],
         next_node := next_node p + 4 \<rparr>
   \<and> fst (MobileOptimizer_handleWebGLContextLoss r p) =
     (if has_setAnimationLoop r then r \<lparr> animationLoop := False \<rparr> else r)"
  by (simp add: MobileOptimizer_handleWebGLContextLoss_def Let_def setTimeout_def
      showFallbackMessage_def createElement_def appendChild_body_def overlay_at_def)

text \<open>
  What the listeners in a list leave: one overlay and two timers for each listener of
  the event on this canvas.
\<close>

lemma run_listeners_effect:
  "snd (run_listeners ls r p) =
     p \<lparr> body := body p @
           overlays (length (filter (\<lambda>l. l = (domElement r, ''webglcontextlost'')) ls)) (next_node p),
         timers := timers p @
           loss_timers (length (filter (\<lambda>l. l = (domElement r, ''webglcontextlost'')) ls))
             (clock p) (next_node p),
         next_node := next_node p +
           4 * length (filter (\<lambda>l. l = (domElement r, ''webglcontextlost'')) ls) \<rparr>
   \<and> fst (run_listeners ls r p) =
     (if 0 < length (filter (\<lambda>l. l = (domElement r, ''webglcontextlost'')) ls)
          \<and> has_setAnimationLoop r
      then r \<lparr> animationLoop := False \<rparr> else r)"
proof (induction ls arbitrary: r p)
  case Nil
  show ?case by simp
next
  case (Cons l ls)
  show ?case
  proof (cases "l = (domElement r, ''webglcontextlost'')")
    case False
    with Cons [of r p] show ?thesis by simp
  next
    case True
    obtain r1 p1 where h: "MobileOptimizer_handleWebGLContextLoss r p = (r1, p1)"
      by (cases "MobileOptimizer_handleWebGLContextLoss r p")
    with handle_page [of r p]
    have p1: "p1 = p \<lparr> body := body p @ [overlay_at (next_node p)],
         timers := timers p @ [(clock p + 5000, RemoveBanner (next_node p)), (clock p + 2000, Reload)],
         next_node := next_node p + 4 \<rparr>"
      and r1: "r1 = (if has_setAnimationLoop r then r \<lparr> animationLoop := False \<rparr> else r)"
      by simp_all
    from r1 have d: "domElement r1 = domElement r" and a: "has_setAnimationLoop r1 = has_setAnimationLoop r"
      by simp_all
    from True h have "run_listeners (l # ls) r p = run_listeners ls r1 p1" by simp
    with Cons [of r1 p1] True d a show ?thesis by (simp add: p1 r1)
  qed
qed

lemma overlays_no_canvas: "ids_of_tag ''canvas'' (overlays n i) = []"
  by (induction n i rule: overlays.induct) (simp_all add: ids_of_tag_def overlay_at_def)

lemma first_overlay_attached: "0 < n \<Longrightarrow> i \<in> snd ` set (nodes (es @ overlays n i))"
  by (cases n) (simp_all add: nodes_append overlay_at_def)

lemma reload_scheduled: "0 < n \<Longrightarrow> (c + 2000, Reload) \<in> set (loss_timers n c i)"
  by (cases n) simp_all

text \<open>
  Claim C6, as amended. A \<^verbatim>\<open>webglcontextlost\<close> event has a listener only where
  \<^verbatim>\<open>setupWebGLProtection\<close> registered one (a renderer was given and the browser is
  Safari), one for each such call; without any the event changes nothing. Each listener
  leaves the canvases as they are: it stops the animation loop when the renderer has
  \<^verbatim>\<open>setAnimationLoop\<close>, appends an overlay with its timer of 5000 ms and schedules a
  reload of the page 2000 ms later; with a listener the first overlay is in the document
  after the event and the page has reloaded 2000 ms later. The method
  \<^verbatim>\<open>handleWebGLContextLoss\<close> of WebGLFallback removes the first canvas and mounts the
  fallback canvas and the notification when fallback mode is not active, and does
  nothing when it is.
\<close>

theorem context_loss_handling:
  "canvas_listeners (setupWebGLProtection m (Some r) perf p) =
      canvas_listeners p @
        (if isSafari m then [(domElement r, ''webglcontextlost''), (domElement r, ''webglcontextrestored'')]
         else [])
   \<and> loss_listeners r (setupWebGLProtection m (Some r) perf p) =
      loss_listeners r p + (if isSafari m then 1 else 0)
   \<and> setupWebGLProtection m None perf p = p
   \<and> (loss_listeners r p = 0 \<longrightarrow> dispatch_webglcontextlost r p = (r, p))
   \<and> ids_of_tag ''canvas'' (body (snd (dispatch_webglcontextlost r p))) = ids_of_tag ''canvas'' (body p)
   \<and> body (snd (dispatch_webglcontextlost r p)) = body p @ overlays (loss_listeners r p) (next_node p)
   \<and> timers (snd (dispatch_webglcontextlost r p)) =
        timers p @ loss_timers (loss_listeners r p) (clock p) (next_node p)
   \<and> animationLoop (fst (dispatch_webglcontextlost r p)) =
        (animationLoop r \<and> \<not> (0 < loss_listeners r p \<and> has_setAnimationLoop r))
   \<and> (0 < loss_listeners r p \<longrightarrow>
        attached (next_node p) (snd (dispatch_webglcontextlost r p))
        \<and> reloads p < reloads (run_until (clock p + 2000) (snd (dispatch_webglcontextlost r p))))
   \<and> (\<not> fallbackMode w \<longrightarrow>
        handleWebGLContextLoss (w, p) = enableFallbackMode (w, p)
        \<and> body (snd (handleWebGLContextLoss (w, p))) =
            (case querySelector ''canvas'' (body p) of
               Some existingCanvas \<Rightarrow> remove_node (ident existingCanvas) (body p)
             | None \<Rightarrow> body p)
            @ [Element ''canvas'' (next_node p) [],
               Element ''div'' (next_node p + 2)
                 [Element ''div'' (next_node p + 3) [], Element ''div'' (next_node p + 4) []]])
   \<and> (fallbackMode w \<longrightarrow> handleWebGLContextLoss (w, p) = (w, p))"
proof -
  let ?n = "loss_listeners r p"
  let ?d = "dispatch_webglcontextlost r p"
  note e = run_listeners_effect [of "canvas_listeners p" r p, folded loss_listeners_def dispatch_webglcontextlost_def]
  have s1: "canvas_listeners (setupWebGLProtection m (Some r) perf p) =
      canvas_listeners p @
        (if isSafari m then [(domElement r, ''webglcontextlost''), (domElement r, ''webglcontextrestored'')]
         else [])"
    by (simp add: setupWebGLProtection_def)
  have s2: "loss_listeners r (setupWebGLProtection m (Some r) perf p) =
      loss_listeners r p + (if isSafari m then 1 else 0)"
    by (simp add: loss_listeners_def s1)
  have s3: "setupWebGLProtection m None perf p = p" by (simp add: setupWebGLProtection_def)
  have bd: "body (snd ?d) = body p @ overlays ?n (next_node p)"
    and tm: "timers (snd ?d) = timers p @ loss_timers ?n (clock p) (next_node p)"
    and rl: "reloads (snd ?d) = reloads p"
    and al: "animationLoop (fst ?d) = (animationLoop r \<and> \<not> (0 < ?n \<and> has_setAnimationLoop r))"
    using e by auto
  have none: "?n = 0 \<longrightarrow> ?d = (r, p)"
  proof
    assume z: "?n = 0"
    with e have "snd ?d = p" "fst ?d = r" by simp_all
    then show "?d = (r, p)" by (simp add: prod_eq_iff)
  qed
  have cv: "ids_of_tag ''canvas'' (body (snd ?d)) = ids_of_tag ''canvas'' (body p)"
    by (simp add: bd ids_of_tag_append overlays_no_canvas)
  have some: "0 < ?n \<longrightarrow> attached (next_node p) (snd ?d)
        \<and> reloads p < reloads (run_until (clock p + 2000) (snd ?d))"
  proof
    assume pos: "0 < ?n"
    have a: "attached (next_node p) (snd ?d)"
      using first_overlay_attached [OF pos] by (simp add: attached_def bd)
    have "(clock p + 2000, Reload) \<in> set (timers (snd ?d))"
      using reload_scheduled [OF pos] by (simp add: tm)
    from run_until_reloads [OF this, of "clock p + 2000"]
    have "reloads p < reloads (run_until (clock p + 2000) (snd ?d))" by (simp add: rl)
    with a show "attached (next_node p) (snd ?d)
        \<and> reloads p < reloads (run_until (clock p + 2000) (snd ?d))" by simp
  qed
  have f1: "\<not> fallbackMode w \<longrightarrow>
        handleWebGLContextLoss (w, p) = enableFallbackMode (w, p)
        \<and> body (snd (handleWebGLContextLoss (w, p))) =
            (case querySelector ''canvas'' (body p) of
               Some existingCanvas \<Rightarrow> remove_node (ident existingCanvas) (body p)
             | None \<Rightarrow> body p)
            @ [Element ''canvas'' (next_node p) [],
               Element ''div'' (next_node p + 2)
                 [Element ''div'' (next_node p + 3) [], Element ''div'' (next_node p + 4) []]]"
    by (simp add: handleWebGLContextLoss_def enableFallbackMode_body)
  have f2: "fallbackMode w \<longrightarrow> handleWebGLContextLoss (w, p) = (w, p)"
    by (simp add: handleWebGLContextLoss_def)
  from s1 s2 s3 none cv bd tm al some f1 f2 show ?thesis by (intro conjI) assumption+
qed

text \<open>
  The theorem without a listener, with one and with two (two overlays and four timers),
  and with fallback mode off and on.
\<close>

theorem context_loss_handling_witness:
  "loss_listeners scene_renderer scene_page = 0
   \<and> dispatch_webglcontextlost scene_renderer scene_page = (scene_renderer, scene_page)
   \<and> loss_listeners scene_renderer protected_page = 1
   \<and> ids_of_tag ''canvas'' (body (snd (dispatch_webglcontextlost scene_renderer protected_page))) = [1]
   \<and> attached 2 (snd (dispatch_webglcontextlost scene_renderer protected_page))
   \<and> 0 < reloads (run_until 2000 (snd (dispatch_webglcontextlost scene_renderer protected_page)))
   \<and> loss_listeners scene_renderer twice_protected_page = 2
   \<and> timers (snd (dispatch_webglcontextlost scene_renderer twice_protected_page)) =
        [(5000, RemoveBanner 2), (2000, Reload), (5000, RemoveBanner 6), (2000, Reload)]
   \<and> \<not> fallbackMode new_fields
   \<and> handleWebGLContextLoss (new_fields, scene_page) = enableFallbackMode (new_fields, scene_page)
   \<and> fallbackMode (new_fields \<lparr> fallbackMode := True \<rparr>)
   \<and> handleWebGLContextLoss (new_fields \<lparr> fallbackMode := True \<rparr>, scene_page)
        = (new_fields \<lparr> fallbackMode := True \<rparr>, scene_page)"
proof -
  have a: "loss_listeners scene_renderer scene_page = 0"
    by (simp add: loss_listeners_def scene_page_def empty_page_def)
  have b: "loss_listeners scene_renderer protected_page = 1"
    "loss_listeners scene_renderer twice_protected_page = 2" by code_simp+
  have c: "ids_of_tag ''canvas'' (body protected_page) = [1]" by code_simp
  have d: "clock protected_page = 0" "reloads protected_page = 0" "next_node protected_page = 2"
    "clock twice_protected_page = 0" "next_node twice_protected_page = 2"
    "timers twice_protected_page = []" by code_simp+
  have f: "\<not> fallbackMode new_fields" by (simp add: new_fields_def)
  have two: "loss_timers 2 0 2 = [(5000, RemoveBanner 2), (2000, Reload), (5000, RemoveBanner 6), (2000, Reload)]"
    by (simp add: numeral_2_eq_2)
  note T1 = context_loss_handling [of "new_MobileOptimizer desktop_safari_ua (Some 2)"
      scene_renderer False scene_page new_fields]
  note T2 = context_loss_handling [of "new_MobileOptimizer desktop_safari_ua (Some 2)"
      scene_renderer False protected_page "new_fields \<lparr> fallbackMode := True \<rparr>"]
  note T3 = context_loss_handling [of "new_MobileOptimizer desktop_safari_ua (Some 2)"
      scene_renderer False twice_protected_page new_fields]
  have g1: "dispatch_webglcontextlost scene_renderer scene_page = (scene_renderer, scene_page)"
    using T1 a by blast
  have g2: "ids_of_tag ''canvas''
      (body (snd (dispatch_webglcontextlost scene_renderer protected_page))) = [1]"
  proof -
    from T2 have "ids_of_tag ''canvas''
        (body (snd (dispatch_webglcontextlost scene_renderer protected_page)))
        = ids_of_tag ''canvas'' (body protected_page)" by blast
    with c show ?thesis by simp
  qed
  have g3: "attached 2 (snd (dispatch_webglcontextlost scene_renderer protected_page))
    \<and> 0 < reloads (run_until 2000 (snd (dispatch_webglcontextlost scene_renderer protected_page)))"
  proof -
    have "0 < loss_listeners scene_renderer protected_page" using b by simp
    with T2 have "attached (next_node protected_page)
          (snd (dispatch_webglcontextlost scene_renderer protected_page))
        \<and> reloads protected_page < reloads (run_until (clock protected_page + 2000)
              (snd (dispatch_webglcontextlost scene_renderer protected_page)))" by blast
    then show ?thesis by (simp add: d)
  qed
  have g4: "timers (snd (dispatch_webglcontextlost scene_renderer twice_protected_page)) =
        [(5000, RemoveBanner 2), (2000, Reload), (5000, RemoveBanner 6), (2000, Reload)]"
  proof -
    from T3 have "timers (snd (dispatch_webglcontextlost scene_renderer twice_protected_page)) =
        timers twice_protected_page @
          loss_timers (loss_listeners scene_renderer twice_protected_page)
            (clock twice_protected_page) (next_node twice_protected_page)" by blast
    then show ?thesis by (simp add: b d two)
  qed
  have g5: "handleWebGLContextLoss (new_fields, scene_page) = enableFallbackMode (new_fields, scene_page)"
    using T1 f by blast
  have g6: "handleWebGLContextLoss (new_fields \<lparr> fallbackMode := True \<rparr>, scene_page)
        = (new_fields \<lparr> fallbackMode := True \<rparr>, scene_page)"
    using context_loss_handling [of "new_MobileOptimizer desktop_safari_ua (Some 2)"
      scene_renderer False scene_page "new_fields \<lparr> fallbackMode := True \<rparr>"] by simp
  from a b f g1 g2 g3 g4 g5 g6 show ?thesis by simp
qed

text \<open>
  The claim as stated fails: on the page that \<^verbatim>\<open>setupWebGLProtection\<close> prepared for
  Safari, a \<^verbatim>\<open>webglcontextlost\<close> event leaves the 3D canvas (identity 1) as the only
  canvas of the document, mounts no fallback canvas, and schedules a reload of the page.
\<close>

theorem context_loss_counterexample:
  "ids_of_tag ''canvas'' (body protected_page) = [1]
   \<and> (1, ''webglcontextlost'') \<in> set (canvas_listeners protected_page)
   \<and> ids_of_tag ''canvas'' (body (snd (dispatch_webglcontextlost scene_renderer protected_page))) = [1]
   \<and> timers (snd (dispatch_webglcontextlost scene_renderer protected_page)) =
        [(5000, RemoveBanner 2), (2000, Reload)]"
  by code_simp

section \<open>Verification: the diagnostic scripts\<close>

lemma check_listener_errors:
  "errors (foldl check_listener l evs) = errors l @ map message (page_errors evs)"
proof (induction evs arbitrary: l)
  case Nil
  show ?case by simp
next
  case (Cons ev evs)
  show ?case by (cases ev) (simp_all add: Cons)
qed

lemma check_detailed_listener_errors:
  "errors (foldl check_detailed_listener l evs) = errors l @ map stack_or_message (page_errors evs)"
proof (induction evs arbitrary: l)
  case Nil
  show ?case by simp
next
  case (Cons ev evs)
  show ?case by (cases ev) (simp_all add: Cons)
qed

text \<open>
  Claim C7, as amended. After any sequence of events, the error list of \<^verbatim>\<open>check.mjs\<close>
  (and of the scripts with the same listener) holds the message of every page error,
  character for character and in the order of delivery. The list of
  \<^verbatim>\<open>check-detailed.mjs\<close> holds for each page error its stack when the stack is a
  string that is not empty, and its message otherwise.
\<close>

theorem page_errors_recorded:
  "errors (foldl check_listener l evs) = errors l @ map message (page_errors evs)
   \<and> errors (foldl check_detailed_listener l evs) = errors l @ map stack_or_message (page_errors evs)
   \<and> (stack error = None \<or> stack error = Some [] \<longrightarrow> stack_or_message error = message error)
   \<and> (stack error = Some st \<and> st \<noteq> [] \<longrightarrow> stack_or_message error = st)"
  by (auto simp: check_listener_errors check_detailed_listener_errors stack_or_message_def)

text \<open>
  The theorem at a page error with a stack and at the same error without one.
\<close>

theorem page_errors_recorded_witness:
  "errors (foldl check_listener \<lparr> logs = [], errors = [] \<rparr>
             [Console ''log'' ''start'', PageError boom]) = [''boom is not defined'']
   \<and> stack (boom \<lparr> stack := None \<rparr>) = None
   \<and> errors (foldl check_detailed_listener \<lparr> logs = [], errors = [] \<rparr>
             [PageError (boom \<lparr> stack := None \<rparr>)]) = [''boom is not defined'']
   \<and> stack boom = Some ''ReferenceError: boom is not defined at index.html:10:3''
   \<and> stack_or_message boom = ''ReferenceError: boom is not defined at index.html:10:3''"
proof -
  note T1 = page_errors_recorded [of "\<lparr> logs = [], errors = [] \<rparr>"
      "[Console ''log'' ''start'', PageError boom]" boom
      "''ReferenceError: boom is not defined at index.html:10:3''"]
  note T2 = page_errors_recorded [of "\<lparr> logs = [], errors = [] \<rparr>"
      "[PageError (boom \<lparr> stack := None \<rparr>)]" "boom \<lparr> stack := None \<rparr>" "[]"]
  have m: "message boom = ''boom is not defined''"
    and s: "stack boom = Some ''ReferenceError: boom is not defined at index.html:10:3''"
    by (simp_all add: boom_def)
  from T1 T2 m s show ?thesis by simp
qed

text \<open>
  The claim as stated fails for \<^verbatim>\<open>check-detailed.mjs\<close>: for an error with a stack the
  text recorded is the stack, not the message.
\<close>

theorem stack_recorded_counterexample:
  "errors (foldl check_detailed_listener \<lparr> logs = [], errors = [] \<rparr> [PageError boom])
     = [''ReferenceError: boom is not defined at index.html:10:3'']
   \<and> errors (foldl check_detailed_listener \<lparr> logs = [], errors = [] \<rparr> [PageError boom])
     \<noteq> [message boom]"
  by (simp add: boom_def stack_or_message_def)

lemma goto_unreachable:
  assumes "unreachable nav"
  shows "goto T nav = (fst (goto T nav), Inl (goto_error T nav))" and "fst (goto T nav) \<le> T"
  using assms by (cases nav; simp add: unreachable_def goto_def goto_error_def)+

lemma testSafariConfig_unreachable:
  assumes "unreachable (config_navigation env name)"
  shows "testSafariConfig env st name =
     st \<lparr> crashPoints := crashPoints st @ [(name, goto_error 30000 (config_navigation env name))],
          performanceMetrics :=
            AList.update name (Failed (goto_error 30000 (config_navigation env name)))
              (performanceMetrics st),
          console_lines := console_lines st @
            [''   Failed to load: '' @ goto_error 30000 (config_navigation env name)],
          waited := waited st + fst (goto 30000 (config_navigation env name)) \<rparr>"
proof -
  obtain d where g: "goto 30000 (config_navigation env name)
      = (d, Inl (goto_error 30000 (config_navigation env name)))"
    using goto_unreachable(1) [OF assms] by blast
  then have "fst (goto 30000 (config_navigation env name)) = d" by simp
  with g show ?thesis by (simp add: testSafariConfig_def)
qed

text \<open>
  Claim C8, as amended. Against a URL that never loads, \<^verbatim>\<open>check.mjs\<close> waits for the
  navigation no longer than its timeout of 15000 ms; the rejection is not caught by the
  script, it leaves the top-level \<^verbatim>\<open>await\<close>, nothing of the script's own is printed and
  the process ends with status 1 and the message of the rejection. In
  \<^verbatim>\<open>test-mobile-safari.mjs\<close> the failure is caught inside \<^verbatim>\<open>testSafariConfig\<close> for
  each of the four configurations: its message is printed and recorded as a crash point,
  the run goes on, the navigations wait 4 times 30000 ms at most in total, and the
  process ends with status 0. The test runner catches a server that does not answer at
  the top level, prints the message and exits with status 1.
\<close>

theorem navigation_failure_handling:
  "(unreachable (navigation_of env) \<longrightarrow>
      exit_code (run_check env) = 1
      \<and> uncaught (run_check env) = Some (goto_error 15000 (navigation_of env))
      \<and> printed (run_check env) = []
      \<and> navigation_wait (run_check env) \<le> 15000)
   \<and> ((\<forall>name. unreachable (config_navigation senv name)) \<longrightarrow>
      exit_code (snd (run_test_mobile_safari senv)) = 0
      \<and> uncaught (snd (run_test_mobile_safari senv)) = None
      \<and> report_crashPoints (fst (run_test_mobile_safari senv))
          = map (\<lambda>name. (name, goto_error 30000 (config_navigation senv name))) testConfigs
      \<and> printed (snd (run_test_mobile_safari senv))
          = map (\<lambda>name. ''   Failed to load: '' @ goto_error 30000 (config_navigation senv name))
              testConfigs
      \<and> navigation_wait (snd (run_test_mobile_safari senv)) \<le> 4 * 30000)
   \<and> (\<not> server_answers renv \<longrightarrow>
      exit_code (runAllTests renv) = 1
      \<and> printed (runAllTests renv) = [''Test suite failed: Server not available''])"
proof -
  have check: "exit_code (run_check env) = 1
      \<and> uncaught (run_check env) = Some (goto_error 15000 (navigation_of env))
      \<and> printed (run_check env) = []
      \<and> navigation_wait (run_check env) \<le> 15000" if u: "unreachable (navigation_of env)"
  proof -
    from goto_unreachable [OF u, of 15000] show ?thesis
      by (metis (no_types, lifting) run_check_def case_prod_conv sum.case(1) script_result.select_convs)
  qed
  have safari: "exit_code (snd (run_test_mobile_safari senv)) = 0
      \<and> uncaught (snd (run_test_mobile_safari senv)) = None
      \<and> report_crashPoints (fst (run_test_mobile_safari senv))
          = map (\<lambda>name. (name, goto_error 30000 (config_navigation senv name))) testConfigs
      \<and> printed (snd (run_test_mobile_safari senv))
          = map (\<lambda>name. ''   Failed to load: '' @ goto_error 30000 (config_navigation senv name))
              testConfigs
      \<and> navigation_wait (snd (run_test_mobile_safari senv)) \<le> 4 * 30000"
    if u: "\<forall>name. unreachable (config_navigation senv name)"
  proof -
    have w: "fst (goto 30000 (config_navigation senv name)) \<le> 30000" for name
      using goto_unreachable(2) [of "config_navigation senv name" 30000] u by simp
    have t: "testSafariConfig senv st name =
     st \<lparr> crashPoints := crashPoints st @ [(name, goto_error 30000 (config_navigation senv name))],
          performanceMetrics :=
            AList.update name (Failed (goto_error 30000 (config_navigation senv name)))
              (performanceMetrics st),
          console_lines := console_lines st @
            [''   Failed to load: '' @ goto_error 30000 (config_navigation senv name)],
          waited := waited st + fst (goto 30000 (config_navigation senv name)) \<rparr>" for st name
      using testSafariConfig_unreachable [of senv name st] u by simp
    show ?thesis
      using w [of "''Safari Desktop (Latest)''"] w [of "''Safari Mobile iOS 17''"]
        w [of "''Safari Mobile iOS 16''"] w [of "''Safari iPad''"]
      by (simp add: run_test_mobile_safari_def testConfigs_def t Let_def)
  qed
  have runner: "exit_code (runAllTests renv) = 1
      \<and> printed (runAllTests renv) = [''Test suite failed: Server not available'']"
    if "\<not> server_answers renv"
    using that by (simp add: runAllTests_def)
  from check safari runner show ?thesis by blast
qed

text \<open>
  The theorem at a navigation that hangs, at a server that refuses the connection, and
  at a runner without a server.
\<close>

theorem navigation_failure_handling_witness:
  "unreachable (navigation_of hanging_check)
   \<and> exit_code (run_check hanging_check) = 1
   \<and> uncaught (run_check hanging_check) = Some timeout_message
   \<and> (\<forall>name. unreachable (config_navigation refused_server name))
   \<and> exit_code (snd (run_test_mobile_safari refused_server)) = 0
   \<and> printed (snd (run_test_mobile_safari refused_server))
        = replicate 4 ''   Failed to load: net::ERR_CONNECTION_REFUSED at http://localhost:3000''
   \<and> \<not> server_answers no_server
   \<and> exit_code (runAllTests no_server) = 1"
proof -
  have a: "unreachable (navigation_of hanging_check)"
    by (simp add: hanging_check_def unreachable_def)
  have b: "\<forall>name. unreachable (config_navigation refused_server name)"
    by (simp add: refused_server_def unreachable_def)
  have c: "\<not> server_answers no_server" by (simp add: no_server_def)
  have d: "goto_error 15000 (navigation_of hanging_check) = timeout_message"
    by (simp add: hanging_check_def goto_error_def goto_def)
  have e: "goto_error 30000 (config_navigation refused_server name)
             = ''net::ERR_CONNECTION_REFUSED at http://localhost:3000''" for name
    by (simp add: refused_server_def goto_error_def goto_def)
  have f: "replicate 4 x = [x, x, x, x]" for x :: string
    by (simp add: numeral_eq_Suc)
  from navigation_failure_handling [of hanging_check refused_server no_server] a b c d
  show ?thesis by (simp add: e f testConfigs_def)
qed

text \<open>
  The claim as stated fails for \<^verbatim>\<open>test-mobile-safari.mjs\<close>: when nothing ever answers,
  the process ends with status 0, after waiting 120000 ms for its four navigations, four
  times the timeout it gives to one.
\<close>

theorem navigation_failure_counterexample:
  "map (config_navigation dead_server) testConfigs = [Hangs, Hangs, Hangs, Hangs]
   \<and> unreachable Hangs
   \<and> exit_code (snd (run_test_mobile_safari dead_server)) = 0
   \<and> navigation_wait (snd (run_test_mobile_safari dead_server)) = 120000
   \<and> map fst (report_crashPoints (fst (run_test_mobile_safari dead_server))) = testConfigs"
  by (simp add: dead_server_def unreachable_def run_test_mobile_safari_def testConfigs_def
      testSafariConfig_def goto_def Let_def)

section \<open>Verification: the emergency memory cleanup\<close>

lemma dispose_fold_objects:
  "objects (foldl dispose_material s ms) = objects s
   \<and> disposed_geometries (foldl dispose_material s ms) = disposed_geometries s
   \<and> disposed_materials (foldl dispose_material s ms) = disposed_materials s @ ms
   \<and> window_orbitalObjects (foldl dispose_material s ms) = window_orbitalObjects s"
  by (induction ms arbitrary: s) (simp_all add: dispose_material_def)

text \<open>What one step does to each part of the window.\<close>

lemma Object3D_remove_other_fields:
  "disposed_geometries (Object3D_remove p c s) = disposed_geometries s
   \<and> disposed_materials (Object3D_remove p c s) = disposed_materials s
   \<and> window_orbitalObjects (Object3D_remove p c s) = window_orbitalObjects s"
  by (simp add: Object3D_remove_def Let_def split: option.splits)

lemma cleanup_object_objects: "objects (cleanup_object s obj) = objects (detach s obj)"
  by (simp add: cleanup_object_def detach_def parent_of_def Let_def dispose_fold_objects
      dispose_geometry_def dispose_material_def
      split: option.splits material_slot.splits)

lemma cleanup_object_geometries:
  "disposed_geometries (cleanup_object s obj) =
     disposed_geometries s @
       (case objects s obj of
          None \<Rightarrow> []
        | Some ob \<Rightarrow> (case parent ob of None \<Rightarrow> []
                      | Some p \<Rightarrow> (case geometry ob of None \<Rightarrow> [] | Some g \<Rightarrow> [g])))"
  by (simp add: cleanup_object_def Let_def dispose_fold_objects Object3D_remove_other_fields
      dispose_geometry_def dispose_material_def
      split: option.splits material_slot.splits)

lemma cleanup_object_materials:
  "disposed_materials (cleanup_object s obj) =
     disposed_materials s @
       (case objects s obj of
          None \<Rightarrow> []
        | Some ob \<Rightarrow> (case parent ob of None \<Rightarrow> [] | Some p \<Rightarrow> materials_of (material ob)))"
  by (simp add: cleanup_object_def Let_def dispose_fold_objects Object3D_remove_other_fields
      dispose_geometry_def dispose_material_def
      split: option.splits material_slot.splits)

lemma cleanup_object_array: "window_orbitalObjects (cleanup_object s obj) = window_orbitalObjects s"
  by (simp add: cleanup_object_def Let_def dispose_fold_objects Object3D_remove_other_fields
      dispose_geometry_def dispose_material_def
      split: option.splits material_slot.splits)


lemmas detach_defs = detach_def Object3D_remove_def parent_of_def Let_def

lemma detach_parent_other: "r \<noteq> x \<Longrightarrow> parent_of (detach s x) r = parent_of s r"
  by (auto simp: detach_defs split: option.splits)

lemma detach_parent_cases:
  "parent_of (detach s x) r = None \<or> parent_of (detach s x) r = parent_of s r"
  by (auto simp: detach_defs split: option.splits)

lemma detach_parent_self: "linked s x \<Longrightarrow> parent_of (detach s x) x = None"
  by (auto simp: detach_defs linked_def split: option.splits)

lemma detach_unrelated:
  "k \<noteq> x \<Longrightarrow> parent_of s x \<noteq> Some k \<Longrightarrow> objects (detach s x) k = objects s k"
  by (auto simp: detach_defs split: option.splits)

lemma detach_geometry:
  "map_option geometry (objects (detach s x) r) = map_option geometry (objects s r)
   \<and> map_option material (objects (detach s x) r) = map_option material (objects s r)"
  by (auto simp: detach_defs split: option.splits)

lemma detach_linked: "linked s r \<Longrightarrow> linked (detach s x) r"
proof (cases "r = x")
  case True
  assume "linked s r"
  with True have "parent_of (detach s x) r = None" by (simp add: detach_parent_self)
  then show ?thesis by (simp add: linked_def)
next
  case False
  assume l: "linked s r"
  show ?thesis
  proof (cases "parent_of s r")
    case None
    with False have "parent_of (detach s x) r = None" by (simp add: detach_parent_other)
    then show ?thesis by (simp add: linked_def)
  next
    case (Some p)
    with l obtain P where P: "objects s p = Some P" "r \<in> set (children P)"
      by (auto simp: linked_def split: option.splits)
    have par: "parent_of (detach s x) r = Some p" using False Some by (simp add: detach_parent_other)
    have "\<exists>P'. objects (detach s x) p = Some P' \<and> r \<in> set (children P')"
      using P False by (auto simp: detach_defs split: option.splits)
    with par show ?thesis by (auto simp: linked_def)
  qed
qed

lemma parent_of_cleanup: "parent_of (cleanup_object s x) r = parent_of (detach s x) r"
  by (simp add: parent_of_def cleanup_object_objects)

lemma linked_cleanup: "linked (cleanup_object s x) r = linked (detach s x) r"
  by (simp add: linked_def parent_of_def cleanup_object_objects cong: option.case_cong)

lemma cleanup_object_parentless: "parent_of s x = None \<Longrightarrow> cleanup_object s x = s"
  by (auto simp: cleanup_object_def parent_of_def split: option.splits)

lemma fold_array:
  "window_orbitalObjects (foldl cleanup_object s rs) = window_orbitalObjects s"
  by (induction rs arbitrary: s) (simp_all add: cleanup_object_array)

lemma fold_parentless:
  "\<forall>r\<in>set rs. parent_of s r = None \<Longrightarrow> foldl cleanup_object s rs = s"
  by (induction rs arbitrary: s) (simp_all add: cleanup_object_parentless)

lemma fold_unrelated:
  "k \<notin> set rs \<Longrightarrow> \<forall>r\<in>set rs. parent_of s r \<noteq> Some k \<Longrightarrow>
     objects (foldl cleanup_object s rs) k = objects s k"
proof (induction rs arbitrary: s)
  case Nil
  show ?case by simp
next
  case (Cons x rs)
  let ?s1 = "cleanup_object s x"
  have k: "objects ?s1 k = objects s k"
    using Cons.prems by (simp add: cleanup_object_objects detach_unrelated)
  have "\<forall>r\<in>set rs. parent_of ?s1 r \<noteq> Some k"
  proof
    fix r assume "r \<in> set rs"
    with Cons.prems(2) have "parent_of s r \<noteq> Some k" by simp
    with detach_parent_cases [of s x r] show "parent_of ?s1 r \<noteq> Some k"
      by (auto simp: parent_of_cleanup)
  qed
  with Cons.IH [of ?s1] Cons.prems(1) have "objects (foldl cleanup_object ?s1 rs) k = objects ?s1 k"
    by simp
  with k show ?case by simp
qed

lemma fold_stays_detached:
  "parent_of s r = None \<Longrightarrow> parent_of (foldl cleanup_object s rs) r = None"
proof (induction rs arbitrary: s)
  case Nil
  then show ?case by simp
next
  case (Cons x rs)
  from detach_parent_cases [of s x r] Cons.prems
  have "parent_of (cleanup_object s x) r = None" by (auto simp: parent_of_cleanup)
  then show ?case using Cons.IH by simp
qed

lemma fold_detaches:
  "linked s r \<Longrightarrow> r \<in> set rs \<Longrightarrow> parent_of (foldl cleanup_object s rs) r = None"
proof (induction rs arbitrary: s)
  case Nil
  then show ?case by simp
next
  case (Cons x rs)
  let ?s1 = "cleanup_object s x"
  have l: "linked ?s1 r" using Cons.prems(1) by (simp add: linked_cleanup detach_linked)
  show ?case
  proof (cases "r = x")
    case True
    with Cons.prems(1) have "parent_of ?s1 r = None"
      by (simp add: parent_of_cleanup detach_parent_self)
    then show ?thesis using fold_stays_detached [of ?s1 r rs] by simp
  next
    case False
    with Cons.prems(2) have "r \<in> set rs" by simp
    with Cons.IH [OF l] show ?thesis by simp
  qed
qed

lemma step_geometries:
  "disposed_geometries (cleanup_object s x) = disposed_geometries s @ disposable_geometry s x"
  by (simp add: cleanup_object_geometries disposable_geometry_def)

lemma step_materials:
  "disposed_materials (cleanup_object s x) = disposed_materials s @ disposable_materials s x"
  by (simp add: cleanup_object_materials disposable_materials_def)

lemma disposable_by_fields:
  "disposable_geometry s r =
     (if parent_of s r = None then []
      else (case map_option geometry (objects s r) of Some (Some g) \<Rightarrow> [g] | _ \<Rightarrow> []))"
  "disposable_materials s r =
     (if parent_of s r = None then []
      else (case map_option material (objects s r) of Some ms \<Rightarrow> materials_of ms | None \<Rightarrow> []))"
  by (auto simp: disposable_geometry_def disposable_materials_def parent_of_def
      split: option.splits)

lemma disposable_after_other:
  assumes "r \<noteq> x"
  shows "disposable_geometry (cleanup_object s x) r = disposable_geometry s r"
    and "disposable_materials (cleanup_object s x) r = disposable_materials s r"
  using assms
  by (simp_all add: disposable_by_fields parent_of_cleanup detach_parent_other
      cleanup_object_objects detach_geometry)

lemma disposable_after_step:
  "set (disposable_geometry (cleanup_object s x) r) \<subseteq> set (disposable_geometry s r)"
  "set (disposable_materials (cleanup_object s x) r) \<subseteq> set (disposable_materials s r)"
  using detach_parent_cases [of s x r]
  by (auto simp: disposable_by_fields parent_of_cleanup cleanup_object_objects detach_geometry)

text \<open>The dispose calls of the loop are those for the entries that have a parent.\<close>

lemma fold_disposed_geometries:
  "set (disposed_geometries (foldl cleanup_object s rs)) =
     set (disposed_geometries s) \<union> set (concat (map (disposable_geometry s) rs))"
proof (induction rs arbitrary: s)
  case Nil
  show ?case by simp
next
  case (Cons x rs)
  let ?s1 = "cleanup_object s x"
  have sub: "set (concat (map (disposable_geometry ?s1) rs))
               \<subseteq> set (concat (map (disposable_geometry s) rs))"
    using disposable_after_step(1) [of s x] by auto
  have sup: "set (concat (map (disposable_geometry s) rs))
               \<subseteq> set (disposable_geometry s x) \<union> set (concat (map (disposable_geometry ?s1) rs))"
  proof
    fix g assume "g \<in> set (concat (map (disposable_geometry s) rs))"
    then obtain r where r: "r \<in> set rs" "g \<in> set (disposable_geometry s r)" by auto
    show "g \<in> set (disposable_geometry s x) \<union> set (concat (map (disposable_geometry ?s1) rs))"
    proof (cases "r = x")
      case True
      with r show ?thesis by simp
    next
      case False
      from disposable_after_other(1) [OF False, of s] r(2)
      have "g \<in> set (disposable_geometry ?s1 r)" by simp
      with r(1) have "g \<in> set (concat (map (disposable_geometry ?s1) rs))" by auto
      then show ?thesis by simp
    qed
  qed
  have "set (disposed_geometries (foldl cleanup_object s (x # rs)))
          = set (disposed_geometries ?s1) \<union> set (concat (map (disposable_geometry ?s1) rs))"
    using Cons [of ?s1] by simp
  also have "\<dots> = set (disposed_geometries s) \<union> set (disposable_geometry s x)
          \<union> set (concat (map (disposable_geometry ?s1) rs))"
    by (simp add: step_geometries)
  also have "\<dots> = set (disposed_geometries s) \<union> set (concat (map (disposable_geometry s) (x # rs)))"
    using sub sup by auto
  finally show ?case .
qed

lemma fold_disposed_materials:
  "set (disposed_materials (foldl cleanup_object s rs)) =
     set (disposed_materials s) \<union> set (concat (map (disposable_materials s) rs))"
proof (induction rs arbitrary: s)
  case Nil
  show ?case by simp
next
  case (Cons x rs)
  let ?s1 = "cleanup_object s x"
  have sub: "set (concat (map (disposable_materials ?s1) rs))
               \<subseteq> set (concat (map (disposable_materials s) rs))"
    using disposable_after_step(2) [of s x] by auto
  have sup: "set (concat (map (disposable_materials s) rs))
               \<subseteq> set (disposable_materials s x) \<union> set (concat (map (disposable_materials ?s1) rs))"
  proof
    fix g assume "g \<in> set (concat (map (disposable_materials s) rs))"
    then obtain r where r: "r \<in> set rs" "g \<in> set (disposable_materials s r)" by auto
    show "g \<in> set (disposable_materials s x) \<union> set (concat (map (disposable_materials ?s1) rs))"
    proof (cases "r = x")
      case True
      with r show ?thesis by simp
    next
      case False
      from disposable_after_other(2) [OF False, of s] r(2)
      have "g \<in> set (disposable_materials ?s1 r)" by simp
      with r(1) have "g \<in> set (concat (map (disposable_materials ?s1) rs))" by auto
      then show ?thesis by simp
    qed
  qed
  have "set (disposed_materials (foldl cleanup_object s (x # rs)))
          = set (disposed_materials ?s1) \<union> set (concat (map (disposable_materials ?s1) rs))"
    using Cons [of ?s1] by simp
  also have "\<dots> = set (disposed_materials s) \<union> set (disposable_materials s x)
          \<union> set (concat (map (disposable_materials ?s1) rs))"
    by (simp add: step_materials)
  also have "\<dots> = set (disposed_materials s) \<union> set (concat (map (disposable_materials s) (x # rs)))"
    using sub sup by auto
  finally show ?case .
qed

lemma fold_geometries_mono:
  "set (disposed_geometries s) \<subseteq> set (disposed_geometries (foldl cleanup_object s rs))"
proof (induction rs arbitrary: s)
  case Nil
  show ?case by simp
next
  case (Cons x rs)
  have "set (disposed_geometries s) \<subseteq> set (disposed_geometries (cleanup_object s x))"
    by (simp add: cleanup_object_geometries)
  with Cons [of "cleanup_object s x"] show ?case by auto
qed

lemma fold_materials_mono:
  "set (disposed_materials s) \<subseteq> set (disposed_materials (foldl cleanup_object s rs))"
proof (induction rs arbitrary: s)
  case Nil
  show ?case by simp
next
  case (Cons x rs)
  have "set (disposed_materials s) \<subseteq> set (disposed_materials (cleanup_object s x))"
    by (simp add: cleanup_object_materials)
  with Cons [of "cleanup_object s x"] show ?case by auto
qed

lemma fold_disposes:
  "r \<in> set rs \<Longrightarrow> parent_of s r \<noteq> None \<Longrightarrow>
   map_option geometry (objects s r) = Some go \<Longrightarrow>
   map_option material (objects s r) = Some ms \<Longrightarrow>
     set (case go of None \<Rightarrow> [] | Some g \<Rightarrow> [g])
       \<subseteq> set (disposed_geometries (foldl cleanup_object s rs))
     \<and> set (materials_of ms) \<subseteq> set (disposed_materials (foldl cleanup_object s rs))"
proof (induction rs arbitrary: s)
  case Nil
  then show ?case by simp
next
  case (Cons x rs)
  let ?s1 = "cleanup_object s x"
  show ?case
  proof (cases "r = x")
    case True
    from Cons.prems(2,3,4) True
    have "set (case go of None \<Rightarrow> [] | Some g \<Rightarrow> [g]) \<subseteq> set (disposed_geometries ?s1)"
      and "set (materials_of ms) \<subseteq> set (disposed_materials ?s1)"
      by (auto simp: cleanup_object_geometries cleanup_object_materials parent_of_def
          split: option.splits)
    with fold_geometries_mono [of ?s1 rs] fold_materials_mono [of ?s1 rs]
    show ?thesis by auto
  next
    case False
    with Cons.prems(1) have r: "r \<in> set rs" by simp
    have p: "parent_of ?s1 r \<noteq> None"
      using False Cons.prems(2) by (simp add: parent_of_cleanup detach_parent_other)
    have g: "map_option geometry (objects ?s1 r) = Some go"
      and m: "map_option material (objects ?s1 r) = Some ms"
      using Cons.prems(3,4) by (simp_all add: cleanup_object_objects detach_geometry)
    from Cons.IH [OF r p g m] show ?thesis by simp
  qed
qed

lemma triggerMemoryCleanup_fields:
  "objects (fst (triggerMemoryCleanup s)) = objects s
   \<and> disposed_geometries (fst (triggerMemoryCleanup s)) = disposed_geometries s
   \<and> disposed_materials (fst (triggerMemoryCleanup s)) = disposed_materials s
   \<and> window_orbitalObjects (fst (triggerMemoryCleanup s)) = window_orbitalObjects s"
  by (simp add: triggerMemoryCleanup_def clearUnusedTextures_def
      split: three_global.splits option.splits prod.splits)

lemma emergency_fields:
  assumes "window_orbitalObjects s = Some objs"
  shows "objects (fst (emergencyMemoryCleanup s)) = objects (foldl cleanup_object s (drop 2 objs))"
    and "disposed_geometries (fst (emergencyMemoryCleanup s))
          = disposed_geometries (foldl cleanup_object s (drop 2 objs))"
    and "disposed_materials (fst (emergencyMemoryCleanup s))
          = disposed_materials (foldl cleanup_object s (drop 2 objs))"
    and "window_orbitalObjects (fst (emergencyMemoryCleanup s)) = Some (take 2 objs)"
  using assms by (simp_all add: emergencyMemoryCleanup_def triggerMemoryCleanup_fields)

text \<open>
  Claim C10, as amended. When \<^verbatim>\<open>window.orbitalObjects\<close> is an array, after
  \<^verbatim>\<open>emergencyMemoryCleanup\<close> it holds the first two references of the prior array
  (exactly two when there were more than two). A kept object is unchanged when it is not
  also among the removed entries and is not the parent of one. A removed object that is
  among the children of its parent ends without a parent. A removed object that had a
  parent has its geometry and all its materials disposed. The geometries and materials
  disposed by the call are exactly those of the removed objects that had a parent: no
  dispose call is made for a removed object without a parent, and when no removed object
  has a parent nothing is detached and nothing is disposed.
\<close>

theorem emergency_cleanup_effect:
  assumes "window_orbitalObjects s = Some objs"
  shows "window_orbitalObjects (fst (emergencyMemoryCleanup s)) = Some (take 2 objs)
   \<and> (2 < length objs \<longrightarrow>
        window_orbitalObjects (fst (emergencyMemoryCleanup s)) = Some [objs ! 0, objs ! 1])
   \<and> (k \<in> set (take 2 objs) \<and> k \<notin> set (drop 2 objs)
        \<and> (\<forall>x\<in>set (drop 2 objs). parent_of s x \<noteq> Some k) \<longrightarrow>
        objects (fst (emergencyMemoryCleanup s)) k = objects s k)
   \<and> (r \<in> set (drop 2 objs) \<and> linked s r \<longrightarrow>
        parent_of (fst (emergencyMemoryCleanup s)) r = None)
   \<and> (r \<in> set (drop 2 objs) \<and> objects s r = Some ob \<and> parent ob \<noteq> None \<longrightarrow>
        (\<forall>g. geometry ob = Some g \<longrightarrow> g \<in> set (disposed_geometries (fst (emergencyMemoryCleanup s))))
        \<and> set (materials_of (material ob)) \<subseteq> set (disposed_materials (fst (emergencyMemoryCleanup s))))
   \<and> set (disposed_geometries (fst (emergencyMemoryCleanup s))) =
        set (disposed_geometries s) \<union> set (concat (map (disposable_geometry s) (drop 2 objs)))
   \<and> set (disposed_materials (fst (emergencyMemoryCleanup s))) =
        set (disposed_materials s) \<union> set (concat (map (disposable_materials s) (drop 2 objs)))
   \<and> ((\<forall>x\<in>set (drop 2 objs). parent_of s x = None) \<longrightarrow>
        objects (fst (emergencyMemoryCleanup s)) = objects s
        \<and> disposed_geometries (fst (emergencyMemoryCleanup s)) = disposed_geometries s
        \<and> disposed_materials (fst (emergencyMemoryCleanup s)) = disposed_materials s)"
proof -
  note f = emergency_fields [OF assms]
  let ?rs = "drop 2 objs"
  let ?s' = "fst (emergencyMemoryCleanup s)"
  have a: "window_orbitalObjects ?s' = Some (take 2 objs)" by (rule f(4))
  have b: "2 < length objs \<longrightarrow> window_orbitalObjects ?s' = Some [objs ! 0, objs ! 1]"
  proof
    assume len: "2 < length objs"
    have "take 2 objs = [objs ! 0, objs ! 1]"
    proof (cases objs)
      case Nil
      with len show ?thesis by simp
    next
      case (Cons x ys)
      with len show ?thesis by (cases ys) (simp_all add: numeral_2_eq_2)
    qed
    with a show "window_orbitalObjects ?s' = Some [objs ! 0, objs ! 1]" by simp
  qed
  have c: "k \<in> set (take 2 objs) \<and> k \<notin> set ?rs
        \<and> (\<forall>x\<in>set ?rs. parent_of s x \<noteq> Some k) \<longrightarrow>
        objects ?s' k = objects s k"
  proof
    assume h: "k \<in> set (take 2 objs) \<and> k \<notin> set ?rs
        \<and> (\<forall>x\<in>set ?rs. parent_of s x \<noteq> Some k)"
    then have "k \<notin> set ?rs" and "\<forall>x\<in>set ?rs. parent_of s x \<noteq> Some k" by simp_all
    from fold_unrelated [OF this] show "objects ?s' k = objects s k" by (simp add: f(1))
  qed
  have d: "r \<in> set ?rs \<and> linked s r \<longrightarrow> parent_of ?s' r = None"
  proof
    assume "r \<in> set ?rs \<and> linked s r"
    then have "linked s r" and "r \<in> set ?rs" by simp_all
    from fold_detaches [OF this] show "parent_of ?s' r = None" by (simp add: parent_of_def f(1))
  qed
  have e: "r \<in> set ?rs \<and> objects s r = Some ob \<and> parent ob \<noteq> None \<longrightarrow>
        (\<forall>g. geometry ob = Some g \<longrightarrow> g \<in> set (disposed_geometries ?s'))
        \<and> set (materials_of (material ob)) \<subseteq> set (disposed_materials ?s')"
  proof
    assume h: "r \<in> set ?rs \<and> objects s r = Some ob \<and> parent ob \<noteq> None"
    then have r: "r \<in> set ?rs" and o: "objects s r = Some ob" by simp_all
    from h have p: "parent_of s r \<noteq> None" by (simp add: parent_of_def)
    have g: "map_option geometry (objects s r) = Some (geometry ob)"
      and m: "map_option material (objects s r) = Some (material ob)" using o by simp_all
    from fold_disposes [OF r p g m]
    show "(\<forall>g. geometry ob = Some g \<longrightarrow> g \<in> set (disposed_geometries ?s'))
        \<and> set (materials_of (material ob)) \<subseteq> set (disposed_materials ?s')"
      by (auto simp: f(2,3))
  qed
  have dg: "set (disposed_geometries ?s') =
        set (disposed_geometries s) \<union> set (concat (map (disposable_geometry s) ?rs))"
    unfolding f(2) by (rule fold_disposed_geometries)
  have dm: "set (disposed_materials ?s') =
        set (disposed_materials s) \<union> set (concat (map (disposable_materials s) ?rs))"
    unfolding f(3) by (rule fold_disposed_materials)
  have g: "(\<forall>x\<in>set ?rs. parent_of s x = None) \<longrightarrow>
        objects ?s' = objects s
        \<and> disposed_geometries ?s' = disposed_geometries s
        \<and> disposed_materials ?s' = disposed_materials s"
  proof
    assume "\<forall>x\<in>set ?rs. parent_of s x = None"
    from fold_parentless [OF this]
    show "objects ?s' = objects s
        \<and> disposed_geometries ?s' = disposed_geometries s
        \<and> disposed_materials ?s' = disposed_materials s" by (simp add: f(1,2,3))
  qed
  from a b c d e dg dm g show ?thesis by (intro conjI) assumption+
qed

text \<open>
  The theorem at the sample scene (object 12 is detached and disposed, object 10 is
  kept as it was, nothing is disposed for the parentless object 13) and at the array
  whose removed entry has no parent.
\<close>

theorem emergency_cleanup_effect_witness:
  "window_orbitalObjects sample_window = Some [10, 11, 12, 13]
   \<and> window_orbitalObjects (fst (emergencyMemoryCleanup sample_window)) = Some [10, 11]
   \<and> objects (fst (emergencyMemoryCleanup sample_window)) 10 = objects sample_window 10
   \<and> parent_of sample_window 12 = Some 1 \<and> linked sample_window 12
   \<and> parent_of (fst (emergencyMemoryCleanup sample_window)) 12 = None
   \<and> 22 \<in> set (disposed_geometries (fst (emergencyMemoryCleanup sample_window)))
   \<and> 32 \<in> set (disposed_materials (fst (emergencyMemoryCleanup sample_window)))
   \<and> set (disposed_geometries (fst (emergencyMemoryCleanup sample_window))) = {22}
   \<and> set (disposed_materials (fst (emergencyMemoryCleanup sample_window))) = {32}
   \<and> window_orbitalObjects loose_window = Some [10, 11, 13]
   \<and> parent_of loose_window 13 = None
   \<and> disposed_geometries (fst (emergencyMemoryCleanup loose_window)) = []"
proof -
  have w: "window_orbitalObjects sample_window = Some [10, 11, 12, 13]" by code_simp
  have lw: "window_orbitalObjects loose_window = Some [10, 11, 13]" by code_simp
  note T = emergency_cleanup_effect [OF w, of 10 12 "orbit (Some 1) 22 32"]
  note L = emergency_cleanup_effect [OF lw, of 10 13 "orbit None 23 33"]
  have tk: "take 2 [10, 11, 12, 13::nat] = [10, 11]" "drop 2 [10, 11, 12, 13::nat] = [12, 13]"
    "take 2 [10, 11, 13::nat] = [10, 11]" "drop 2 [10, 11, 13::nat] = [13]"
    by (simp_all add: numeral_2_eq_2)
  have p: "parent_of sample_window 12 = Some 1" "parent_of sample_window 13 = None"
    "parent_of loose_window 13 = None" by code_simp+
  have l: "linked sample_window 12" by code_simp
  have o: "objects sample_window 12 = Some (orbit (Some 1) 22 32)"
    by (simp add: sample_window_def)
  have f: "parent (orbit (Some 1) 22 32) \<noteq> None" "geometry (orbit (Some 1) 22 32) = Some 22"
    "materials_of (material (orbit (Some 1) 22 32)) = [32]" by (simp_all add: orbit_def)
  have dg: "disposed_geometries loose_window = []" "disposed_geometries sample_window = []"
    "disposed_materials sample_window = []" by code_simp+
  have ds: "disposable_geometry sample_window 12 = [22]" "disposable_geometry sample_window 13 = []"
    "disposable_materials sample_window 12 = [32]" "disposable_materials sample_window 13 = []"
    by code_simp+
  have g1: "window_orbitalObjects (fst (emergencyMemoryCleanup sample_window)) = Some [10, 11]"
    using T [THEN conjunct1] by (simp add: tk)
  have g2: "objects (fst (emergencyMemoryCleanup sample_window)) 10 = objects sample_window 10"
    using T [THEN conjunct2, THEN conjunct2, THEN conjunct1] p by (simp add: tk)
  have g3: "parent_of (fst (emergencyMemoryCleanup sample_window)) 12 = None"
    using T [THEN conjunct2, THEN conjunct2, THEN conjunct2, THEN conjunct1] l by (simp add: tk)
  have g4: "22 \<in> set (disposed_geometries (fst (emergencyMemoryCleanup sample_window)))
     \<and> 32 \<in> set (disposed_materials (fst (emergencyMemoryCleanup sample_window)))"
    using T [THEN conjunct2, THEN conjunct2, THEN conjunct2, THEN conjunct2, THEN conjunct1] o f by (simp add: tk)
  have g5: "disposed_geometries (fst (emergencyMemoryCleanup loose_window)) = []"
    using L [THEN conjunct2, THEN conjunct2, THEN conjunct2, THEN conjunct2, THEN conjunct2, THEN conjunct2, THEN conjunct2] p dg by (simp add: tk)
  have g6: "set (disposed_geometries (fst (emergencyMemoryCleanup sample_window))) = {22}
     \<and> set (disposed_materials (fst (emergencyMemoryCleanup sample_window))) = {32}"
    using T [THEN conjunct2, THEN conjunct2, THEN conjunct2, THEN conjunct2, THEN conjunct2, THEN conjunct1] T [THEN conjunct2, THEN conjunct2, THEN conjunct2, THEN conjunct2, THEN conjunct2, THEN conjunct2, THEN conjunct1]
    by (simp add: tk dg ds)
  from w lw p l g1 g2 g3 g4 g5 g6 show ?thesis by simp
qed

text \<open>
  The claim as stated fails. In the sample scene the removed object 13 has no parent:
  it leaves the array, and its geometry 23 and material 33 are not disposed (only those
  of object 12 are). With the scene itself in front of the array, the kept object 1
  changes: its children go from 10, 11, 12 to 10.
\<close>

theorem parentless_object_counterexample:
  "window_orbitalObjects sample_window = Some [10, 11, 12, 13]
   \<and> map_option geometry (objects sample_window 13) = Some (Some 23)
   \<and> map_option material (objects sample_window 13) = Some (OneMaterial 33)
   \<and> disposed_geometries (fst (emergencyMemoryCleanup sample_window)) = [22]
   \<and> disposed_materials (fst (emergencyMemoryCleanup sample_window)) = [32]
   \<and> window_orbitalObjects grouped_window = Some [1, 10, 11, 12]
   \<and> map_option children (objects grouped_window 1) = Some [10, 11, 12]
   \<and> map_option children (objects (fst (emergencyMemoryCleanup grouped_window)) 1) = Some [10]"
  by code_simp

end
